theory Spec2Isabelle
  imports Main
begin

section \<open>Data model of the listing engine\<close>

text \<open>
  The development embeds \<^verbatim>\<open>base/listing.scraper.ts\<close> (class \<^verbatim>\<open>ListingScraper\<close>) and the
  four scrape entry points of \<^verbatim>\<open>linkedin/scraper.ts\<close>.

  The engine is asynchronous TypeScript: one thread, and a function that reaches an
  \<^verbatim>\<open>await\<close> is suspended until the awaited promise settles. Each async function of the
  source is therefore split at its \<^verbatim>\<open>await\<close>s into the pieces that run without
  interruption; the frame of a suspended function is a value of a datatype, and the event
  loop is a function \<open>step\<close> that takes the settlement of one pending promise and runs the
  piece that was waiting for it. A run is \<open>scrapeStart\<close> followed by any list of events.

  JavaScript values: an optional or nullable value is an \<open>option\<close>; numbers that count
  pages, workers and status codes are \<open>nat\<close>; a value is "truthy" as the helpers below say.
\<close>

datatype output_type = Json | Sqlite

text \<open>A short or detail item: \<^verbatim>\<open>{ id: string, ... }\<close>.\<close>

record item =
  item_id :: string
  item_fields :: "(string \<times> string) list"

text \<open>\<^verbatim>\<open>ApiListResponse\<close>, with the fields the engine reads.\<close>

record list_response =
  list_id :: "string option"
  list_status :: "nat option"
  list_error :: "string option"
  list_query :: "string option"
  elements :: "item list option"
  pagination_totalPages :: "nat option"
  user_requestsConcurrency :: "nat option"

text \<open>\<^verbatim>\<open>Partial<ApiItemResponse<TItemDetail>> & { skipped?: boolean }\<close>.\<close>

record item_response =
  resp_id :: "string option"
  element :: "item option"
  resp_status :: "nat option"
  resp_error :: "string option"
  resp_query :: "string option"
  skipped :: "bool option"

text \<open>\<^verbatim>\<open>ListingScraperOptions\<close> without the two collaborators \<^verbatim>\<open>fetchList\<close> and
  \<^verbatim>\<open>fetchItem\<close>, whose answers arrive as events.\<close>

record options =
  outputType :: "output_type option"
  outputDir :: "string option"
  filename :: "string option"
  tableName :: "string option"
  entityName :: string
  maxPages :: "nat option"
  scrapeDetails :: "bool option"
  skipItemRequestsStats :: "bool option"

text \<open>\<^verbatim>\<open>this.stats\<close> (the clock value \<^verbatim>\<open>requestsStartTime\<close> is left out).\<close>

record stats =
  pages :: nat
  pagesSuccess :: nat
  items :: nat
  itemsSuccess :: nat
  requests :: nat

text \<open>The values \<^verbatim>\<open>this.error\<close> takes: a message, or the pair built by
  \<^verbatim>\<open>createSqliteDatabase\<close>.\<close>

datatype err = Err_msg string | Err_sqlite

text \<open>A settled promise: rejected, or resolved to a value.\<close>

datatype 'a settled = Rejected | Resolved 'a

datatype open_result = Opened | Open_failed bool

datatype open_state = NotStarted | Opening | Settled

text \<open>Lines written to the console.\<close>

datatype message =
    Msg_error_fetching_page nat
  | Msg_error_scraping_item
  | Msg_error_inserting
  | Msg_scraping nat nat
  | Msg_errors err
  | Msg_exiting
  | Msg_scraped_page nat nat
  | Msg_finished nat nat nat

text \<open>A call of a collaborator, with the value of \<^verbatim>\<open>this.done\<close> at the moment of the
  call: \<^verbatim>\<open>fetchList({ page })\<close>, or \<^verbatim>\<open>fetchItem({ item })\<close> for the element at an index
  of a page.\<close>

datatype issue = IssueList bool nat | IssueItem bool nat nat item

text \<open>Where \<^verbatim>\<open>scrapePageItems\<close> stands when it gives up control: it has returned, it
  waits for \<^verbatim>\<open>fetchItem\<close> (line 165) or it waits for \<^verbatim>\<open>onItemScraped\<close> (line 193). The
  fields are its locals \<^verbatim>\<open>details\<close>, the position in \<^verbatim>\<open>list.elements\<close> and the resolved
  element.\<close>

datatype items_k =
    Return "item list"
  | FetchItem_await "item list" nat
  | OnItemScraped_await "item list" nat item

text \<open>The frame of one \<^verbatim>\<open>scrapePage\<close> task.\<close>

datatype worker =
    Idle
  | AwaitList
  | AwaitItem list_response "item list" nat
  | AwaitWrite list_response "item list" nat item
  | Finished

text \<open>The frame of \<^verbatim>\<open>scrapeStart\<close>: waiting for page 1, waiting for
  \<^verbatim>\<open>Promise.all\<close>, or returned (\<open>None\<close> is the bare \<^verbatim>\<open>return\<close> of line 71).\<close>

datatype main_frame = AwaitFirstPage | AwaitPages | Returned "stats option"

record state =
  is_done :: bool
  error :: "err option"
  stats :: stats
  inMemoryItems :: "item list"
  db :: bool
  db_closed :: bool
  sqliteOpen :: open_state
  rows :: "item list"
  totalPages :: nat
  concurrency :: nat
  pending :: "(nat \<times> list_response option) list"
  workers :: "nat \<Rightarrow> worker"
  writes :: "(nat \<times> item) list"
  main :: main_frame
  issued :: "issue list"
  console :: "message list"
  document :: "(stats \<times> item list) option"

section \<open>Truthiness\<close>

fun truthy_str :: "string option \<Rightarrow> bool" where
  "truthy_str None = False"
| "truthy_str (Some s) = (s \<noteq> [])"

fun truthy_nat :: "nat option \<Rightarrow> bool" where
  "truthy_nat None = False"
| "truthy_nat (Some n) = (n \<noteq> 0)"

fun truthy_bool :: "bool option \<Rightarrow> bool" where
  "truthy_bool None = False"
| "truthy_bool (Some b) = b"

text \<open>\<^verbatim>\<open>n || d\<close> on an optional number.\<close>

fun or_nat :: "nat option \<Rightarrow> nat \<Rightarrow> nat" where
  "or_nat None d = d"
| "or_nat (Some n) d = (if n = 0 then d else n)"

text \<open>\<^verbatim>\<open>e || 'Request limit exceeded - upgrade your plan'\<close>.\<close>

fun error_or_default :: "string option \<Rightarrow> err" where
  "error_or_default None = Err_msg ''Request limit exceeded - upgrade your plan''"
| "error_or_default (Some e) =
     (if e = [] then Err_msg ''Request limit exceeded - upgrade your plan'' else Err_msg e)"

text \<open>\<^verbatim>\<open>promise.catch((error) => { console.error(...); return null; })\<close>.\<close>

fun catch_null :: "message \<Rightarrow> 'a option settled \<Rightarrow> state \<Rightarrow> 'a option \<times> state" where
  "catch_null m Rejected s = (None, s\<lparr>console := console s @ [m]\<rparr>)"
| "catch_null m (Resolved r) s = (r, s)"

section \<open>The engine\<close>

text \<open>The constructor: \<^verbatim>\<open>outputType\<close> defaults to \<^verbatim>\<open>'sqlite'\<close>. (The output path and the
  table name, built from a random id and the clock, are not modelled.)\<close>

definition constructor :: "options \<Rightarrow> options" where
  "constructor opts =
     (case outputType opts of
        None \<Rightarrow> opts\<lparr>outputType := Some Sqlite\<rparr>
      | Some t \<Rightarrow> opts)"

definition initial :: state where
  "initial =
     \<lparr>is_done = False, error = None,
      stats = \<lparr>pages = 0, pagesSuccess = 0, items = 0, itemsSuccess = 0, requests = 0\<rparr>,
      inMemoryItems = [], db = False, db_closed = False, sqliteOpen = NotStarted, rows = [],
      totalPages = 0, concurrency = 0, pending = [], workers = (\<lambda>p. Idle), writes = [],
      main = AwaitFirstPage, issued = [], console = [], document = None\<rparr>"

subsection \<open>fetchPage\<close>

text \<open>Line 134: the call of \<^verbatim>\<open>fetchList\<close>.\<close>

definition fetchPage_call :: "nat \<Rightarrow> state \<Rightarrow> state" where
  "fetchPage_call page s = s\<lparr>issued := issued s @ [IssueList (is_done s) page]\<rparr>"

text \<open>Lines 134-148, once the promise of \<^verbatim>\<open>fetchList\<close> has settled.\<close>

definition fetchPage_resume ::
  "nat \<Rightarrow> list_response option settled \<Rightarrow> state \<Rightarrow> list_response option \<times> state" where
  "fetchPage_resume page r s =
     (case catch_null (Msg_error_fetching_page page) r s of
        (result, s1) \<Rightarrow>
          (case result of
             None \<Rightarrow>
               (None, s1\<lparr>stats := (stats s1)\<lparr>pages := pages (stats s1) + 1,
                                             requests := requests (stats s1) + 1\<rparr>\<rparr>)
           | Some res \<Rightarrow>
               if list_status res = Some 402 then
                 (None, s1\<lparr>is_done := True, error := Some (error_or_default (list_error res))\<rparr>)
               else
                 (Some res,
                  s1\<lparr>stats := (stats s1)\<lparr>pages := pages (stats s1) + 1,
                                        requests := requests (stats s1) + 1,
                                        pagesSuccess :=
                                          (if truthy_str (list_id res)
                                           then pagesSuccess (stats s1) + 1
                                           else pagesSuccess (stats s1))\<rparr>\<rparr>)))"

subsection \<open>scrapePageItems\<close>

text \<open>Between two \<^verbatim>\<open>await\<close>s the loop of \<^verbatim>\<open>scrapePageItems\<close> writes to \<^verbatim>\<open>this.stats\<close>
  only, so its pieces pass the counters; \<^verbatim>\<open>this.done\<close> and \<^verbatim>\<open>this.error\<close> are written
  after the \<^verbatim>\<open>await\<close> of \<^verbatim>\<open>fetchItem\<close> alone (lines 170-174).\<close>

text \<open>Lines 185-189: count the item, and count a request when details are scraped and
  the answer is not marked skipped. The option \<^verbatim>\<open>skipItemRequestsStats\<close> is not read
  here, nor anywhere else in the engine.\<close>

definition count_item :: "options \<Rightarrow> item_response option \<Rightarrow> stats \<Rightarrow> stats" where
  "count_item opts itemDetails st =
     (let st1 = st\<lparr>items := items st + 1\<rparr>;
          is_skipped = (case itemDetails of None \<Rightarrow> False | Some d \<Rightarrow> truthy_bool (skipped d))
      in if truthy_bool (scrapeDetails opts) \<and> is_skipped = False
         then st1\<lparr>requests := requests st1 + 1\<rparr>
         else st1)"

text \<open>Line 191: \<^verbatim>\<open>itemDetails?.element && itemDetails.id\<close>.\<close>

fun resolved :: "item_response option \<Rightarrow> item option" where
  "resolved None = None"
| "resolved (Some d) =
     (case element d of
        None \<Rightarrow> None
      | Some e \<Rightarrow> if truthy_str (resp_id d) then Some e else None)"

text \<open>Lines 185-195 for one item: \<open>Some\<close> when the item resolved and the function now
  waits for \<^verbatim>\<open>onItemScraped\<close>, \<open>None\<close> when the loop goes on to the next element.\<close>

definition item_tail ::
  "options \<Rightarrow> item list \<Rightarrow> nat \<Rightarrow> item_response option \<Rightarrow> stats \<Rightarrow> items_k option \<times> stats" where
  "item_tail opts details i itemDetails st =
     (let st1 = count_item opts itemDetails st
      in case resolved itemDetails of
           None \<Rightarrow> (None, st1)
         | Some e \<Rightarrow>
             (Some (OnItemScraped_await details i e),
              st1\<lparr>itemsSuccess := itemsSuccess st1 + 1\<rparr>))"

fun elements_of :: "list_response \<Rightarrow> item list" where
  "elements_of list = (case elements list of None \<Rightarrow> [] | Some els \<Rightarrow> els)"

text \<open>Lines 176-182: the answer made up from the short item when details are not
  scraped.\<close>

definition synthesized :: "list_response \<Rightarrow> item \<Rightarrow> item_response" where
  "synthesized list it =
     \<lparr>resp_id = Some (item_id it), element = Some it, resp_status = list_status list,
      resp_error = list_error list, resp_query = list_query list, skipped = None\<rparr>"

text \<open>The \<^verbatim>\<open>for (const item of list.elements)\<close> loop from position \<open>i\<close>, up to its next
  \<^verbatim>\<open>await\<close> or its \<^verbatim>\<open>return\<close>.\<close>

function scrapePageItems_loop ::
  "options \<Rightarrow> list_response \<Rightarrow> item list \<Rightarrow> nat \<Rightarrow> stats \<Rightarrow> items_k \<times> stats" where
  "scrapePageItems_loop opts list details i st =
     (if i < length (elements_of list) then
        (if truthy_bool (scrapeDetails opts) then (FetchItem_await details i, st)
         else
           (case item_tail opts details i
                   (Some (synthesized list (elements_of list ! i))) st of
              (Some k, st1) \<Rightarrow> (k, st1)
            | (None, st1) \<Rightarrow> scrapePageItems_loop opts list details (Suc i) st1))
      else (Return details, st))"
  by pat_completeness auto
termination
  by (relation "measure (\<lambda>(opts, list, details, i, st). length (elements_of list) - i)") auto

text \<open>The counters go back into \<^verbatim>\<open>this.stats\<close>.\<close>

definition with_stats :: "state \<Rightarrow> items_k \<times> stats \<Rightarrow> items_k \<times> state" where
  "with_stats s kst = (fst kst, s\<lparr>stats := snd kst\<rparr>)"

text \<open>Lines 152-156: the entry of \<^verbatim>\<open>scrapePageItems\<close>.\<close>

definition scrapePageItems :: "options \<Rightarrow> list_response \<Rightarrow> state \<Rightarrow> items_k \<times> state" where
  "scrapePageItems opts list s =
     (case elements list of
        None \<Rightarrow> (Return [], s)
      | Some els \<Rightarrow> with_stats s (scrapePageItems_loop opts list [] 0 (stats s)))"

text \<open>Lines 165-196, once the promise of \<^verbatim>\<open>fetchItem\<close> has settled (a synchronous
  \<^verbatim>\<open>null\<close> of \<^verbatim>\<open>fetchItem\<close> is \<open>Resolved None\<close>).\<close>

definition scrapePageItems_fetched ::
  "options \<Rightarrow> list_response \<Rightarrow> item list \<Rightarrow> nat \<Rightarrow> item_response option settled \<Rightarrow> state
     \<Rightarrow> items_k \<times> state" where
  "scrapePageItems_fetched opts list details i r s =
     (case catch_null Msg_error_scraping_item r s of
        (itemDetails, s1) \<Rightarrow>
          if (case itemDetails of None \<Rightarrow> None | Some d \<Rightarrow> resp_status d) = Some 402 then
            (Return details,
             s1\<lparr>is_done := True,
                error := Some (error_or_default
                                 (case itemDetails of None \<Rightarrow> None | Some d \<Rightarrow> resp_error d))\<rparr>)
          else
            with_stats s1
              (case item_tail opts details i itemDetails (stats s1) of
                 (Some k, st) \<Rightarrow> (k, st)
               | (None, st) \<Rightarrow> scrapePageItems_loop opts list details (Suc i) st))"

text \<open>Lines 194-196, once \<^verbatim>\<open>onItemScraped\<close> has completed.\<close>

definition scrapePageItems_written ::
  "options \<Rightarrow> list_response \<Rightarrow> item list \<Rightarrow> nat \<Rightarrow> item \<Rightarrow> state \<Rightarrow> items_k \<times> state" where
  "scrapePageItems_written opts list details i e s =
     with_stats s (scrapePageItems_loop opts list (details @ [e]) (Suc i) (stats s))"

subsection \<open>scrapePage\<close>

text \<open>Lines 121-130.\<close>

definition scrapePage_end :: "nat \<Rightarrow> item list \<Rightarrow> state \<Rightarrow> worker \<times> state" where
  "scrapePage_end page details s =
     (if is_done s then (Finished, s)
      else (Finished, s\<lparr>console := console s @ [Msg_scraped_page page (length details)]\<rparr>))"

text \<open>What \<^verbatim>\<open>scrapePage\<close> does with the state in which \<^verbatim>\<open>scrapePageItems\<close> gave up
  control: the call of \<^verbatim>\<open>fetchItem\<close> and the submission to \<^verbatim>\<open>onItemScraped\<close> are
  registered with the event loop, and a \<^verbatim>\<open>return\<close> goes on at line 121.\<close>

fun suspend_items :: "nat \<Rightarrow> list_response \<Rightarrow> items_k \<times> state \<Rightarrow> worker \<times> state" where
  "suspend_items page list (Return details, s) = scrapePage_end page details s"
| "suspend_items page list (FetchItem_await details i, s) =
     (AwaitItem list details i,
      s\<lparr>issued := issued s @ [IssueItem (is_done s) page i (elements_of list ! i)]\<rparr>)"
| "suspend_items page list (OnItemScraped_await details i e, s) =
     (AwaitWrite list details i e, s\<lparr>writes := writes s @ [(page, e)]\<rparr>)"

text \<open>Lines 114-120.\<close>

definition scrapePage_listed ::
  "options \<Rightarrow> nat \<Rightarrow> list_response option \<Rightarrow> state \<Rightarrow> worker \<times> state" where
  "scrapePage_listed opts page list s =
     (if is_done s then (Finished, s)
      else
        (case list of
           None \<Rightarrow> scrapePage_end page [] s
         | Some l \<Rightarrow>
             (case elements l of
                None \<Rightarrow> scrapePage_end page [] s
              | Some els \<Rightarrow> suspend_items page l (scrapePageItems opts l s))))"

text \<open>Lines 112-113: the start of a page task.\<close>

definition scrapePage ::
  "options \<Rightarrow> nat \<Rightarrow> list_response option \<Rightarrow> state \<Rightarrow> worker \<times> state" where
  "scrapePage opts page scrapedList s =
     (if is_done s then (Finished, s)
      else
        (case scrapedList of
           Some l \<Rightarrow> scrapePage_listed opts page (Some l) s
         | None \<Rightarrow> (AwaitList, fetchPage_call page s)))"

text \<open>Line 113 onwards, once the page's \<^verbatim>\<open>fetchPage\<close> has settled.\<close>

definition scrapePage_fetched ::
  "options \<Rightarrow> nat \<Rightarrow> list_response option settled \<Rightarrow> state \<Rightarrow> worker \<times> state" where
  "scrapePage_fetched opts page r s =
     (case fetchPage_resume page r s of (list, s1) \<Rightarrow> scrapePage_listed opts page list s1)"

subsection \<open>The output store\<close>

text \<open>The body of \<^verbatim>\<open>onItemScraped\<close> (lines 201-210). \<open>ok\<close> says whether the statements of
  \<^verbatim>\<open>insertSqliteItem\<close> went through; with no database handle they cannot.\<close>

definition onItemScraped :: "options \<Rightarrow> bool \<Rightarrow> item \<Rightarrow> state \<Rightarrow> state" where
  "onItemScraped opts ok e s =
     (let s1 = (if outputType opts = Some Json
                then s\<lparr>inMemoryItems := inMemoryItems s @ [e]\<rparr> else s)
      in if outputType opts = Some Sqlite then
           (if db s1 \<and> ok then s1\<lparr>rows := rows s1 @ [e]\<rparr>
            else s1\<lparr>console := console s1 @ [Msg_error_inserting]\<rparr>)
         else s1)"

text \<open>\<^verbatim>\<open>createSqliteDatabase\<close> (lines 212-231) once it has run: the database is open, or
  the \<^verbatim>\<open>catch\<close> has recorded the error and set \<^verbatim>\<open>done\<close> (the flag of \<open>Open_failed\<close> says
  whether \<^verbatim>\<open>this.db\<close> had been assigned before the failure).\<close>

fun createSqliteDatabase_settled :: "open_result \<Rightarrow> state \<Rightarrow> state" where
  "createSqliteDatabase_settled Opened s = s\<lparr>db := True, sqliteOpen := Settled\<rparr>"
| "createSqliteDatabase_settled (Open_failed handle) s =
     s\<lparr>db := handle, error := Some Err_sqlite, is_done := True, sqliteOpen := Settled\<rparr>"

text \<open>\<^verbatim>\<open>finalize\<close> (lines 261-276).\<close>

definition finalize :: "options \<Rightarrow> state \<Rightarrow> state" where
  "finalize opts s =
     (let s1 = (if outputType opts = Some Json
                then s\<lparr>document := Some (stats s, inMemoryItems s)\<rparr> else s)
      in if db s1 then s1\<lparr>db_closed := True\<rparr> else s1)"

subsection \<open>scrapeStart\<close>

text \<open>Lines 66-69 and 97-100.\<close>

definition log_errors :: "state \<Rightarrow> state" where
  "log_errors s =
     (case error s of
        None \<Rightarrow> s
      | Some e \<Rightarrow> s\<lparr>console := console s @ [Msg_errors e]\<rparr>)"

text \<open>Line 49 up to the \<^verbatim>\<open>await\<close>.\<close>

definition scrapeStart :: state where
  "scrapeStart = fetchPage_call 1 initial"

text \<open>Lines 51-54: the page count of the first page, capped by \<^verbatim>\<open>maxPages\<close> when that
  option is truthy.\<close>

definition capped_totalPages :: "options \<Rightarrow> list_response option \<Rightarrow> nat" where
  "capped_totalPages opts firstPage =
     (let reported = (case firstPage of None \<Rightarrow> 0 | Some l \<Rightarrow> or_nat (pagination_totalPages l) 0)
      in case maxPages opts of
           None \<Rightarrow> reported
         | Some m \<Rightarrow> if m \<noteq> 0 \<and> reported > m then m else reported)"

text \<open>Line 56: \<^verbatim>\<open>firstPage?.user?.requestsConcurrency || 1\<close>.\<close>

definition reported_concurrency :: "list_response option \<Rightarrow> nat" where
  "reported_concurrency firstPage =
     (case firstPage of None \<Rightarrow> 1 | Some l \<Rightarrow> or_nat (user_requestsConcurrency l) 1)"

text \<open>Lines 51-90, with the first page as \<^verbatim>\<open>fetchPage\<close> returned it. The queue
  \<^verbatim>\<open>createConcurrentQueues(concurrency, ...)\<close> of line 74 is the pair of the fields
  \<open>concurrency\<close> and \<open>pending\<close>; the loop of lines 84-88 submits the pages in order.\<close>

definition scrapeStart_resume :: "options \<Rightarrow> list_response option \<Rightarrow> state \<Rightarrow> state" where
  "scrapeStart_resume opts firstPage s =
     (let s1 = s\<lparr>console := console s @
                  [Msg_scraping (reported_concurrency firstPage) (capped_totalPages opts firstPage)]\<rparr>
      in if firstPage = None \<or> capped_totalPages opts firstPage = 0 then
           (let s2 = log_errors (s1\<lparr>is_done := True\<rparr>)
            in s2\<lparr>console := console s2 @ [Msg_exiting], main := Returned None\<rparr>)
         else
           s1\<lparr>concurrency := reported_concurrency firstPage,
              totalPages := capped_totalPages opts firstPage,
              stats := (stats s1)\<lparr>pages := 1, pagesSuccess := 1\<rparr>,
              sqliteOpen := (if outputType opts = Some Sqlite then Opening else sqliteOpen s1),
              pending := map (\<lambda>page. (page, if page = 1 then firstPage else None))
                           [1..<Suc (capped_totalPages opts firstPage)],
              main := AwaitPages\<rparr>)"

text \<open>Lines 90-102, once \<^verbatim>\<open>Promise.all\<close> has resolved.\<close>

definition scrapeStart_finish :: "options \<Rightarrow> state \<Rightarrow> state" where
  "scrapeStart_finish opts s =
     (let s1 = finalize opts s;
          s2 = s1\<lparr>console := console s1 @
                  [Msg_finished (pages (stats s1)) (itemsSuccess (stats s1)) (requests (stats s1))]\<rparr>;
          s3 = log_errors s2
      in s3\<lparr>main := Returned (Some (stats s3))\<rparr>)"

subsection \<open>The event loop\<close>

fun active :: "worker \<Rightarrow> bool" where
  "active Idle = False"
| "active Finished = False"
| "active AwaitList = True"
| "active (AwaitItem l d i) = True"
| "active (AwaitWrite l d i e) = True"

text \<open>The page tasks in flight: started by the queue and not completed.\<close>

definition inflight :: "state \<Rightarrow> nat list" where
  "inflight s = filter (\<lambda>p. active (workers s p)) [1..<Suc (totalPages s)]"

definition all_finished :: "state \<Rightarrow> bool" where
  "all_finished s = list_all (\<lambda>p. workers s p = Finished) [1..<Suc (totalPages s)]"

definition set_worker :: "nat \<Rightarrow> worker \<times> state \<Rightarrow> state" where
  "set_worker page ws = (case ws of (w, s) \<Rightarrow> s\<lparr>workers := (workers s)(page := w)\<rparr>)"

text \<open>
  Modelled from the spec: \<^verbatim>\<open>createConcurrentQueues\<close> of \<^verbatim>\<open>../utils\<close>, which is not among
  the sources. By the spec's contract it turns a worker count N and a task function into
  a submission function such that at most N invocations of the task function are in
  flight, tasks are admitted in the order submitted, and the awaitable of a submission
  resolves only when that task's execution completes. Here: \<open>Admit\<close> starts the oldest
  pending page task, and only while fewer than \<open>concurrency\<close> page tasks are in flight;
  \<open>AllSettled\<close> (\<^verbatim>\<open>Promise.all\<close> over the submissions) needs every page task completed;
  the queue of \<^verbatim>\<open>onItemScraped\<close> (N = 1) is the list \<open>writes\<close>, served from its head.
\<close>

datatype event =
    ListSettled nat "list_response option settled"
  | Admit
  | ItemSettled nat "item_response option settled"
  | StoreOpenSettled open_result
  | WriteSettled bool
  | AllSettled

fun step :: "options \<Rightarrow> event \<Rightarrow> state \<Rightarrow> state" where
  "step opts (ListSettled page r) s =
     (case main s of
        AwaitFirstPage \<Rightarrow>
          (if page = 1
           then (case fetchPage_resume 1 r s of (firstPage, s1) \<Rightarrow> scrapeStart_resume opts firstPage s1)
           else s)
      | AwaitPages \<Rightarrow>
          (case workers s page of
             AwaitList \<Rightarrow> set_worker page (scrapePage_fetched opts page r s)
           | _ \<Rightarrow> s)
      | Returned v \<Rightarrow> s)"
| "step opts Admit s =
     (case main s of
        AwaitPages \<Rightarrow>
          (case pending s of
             [] \<Rightarrow> s
           | (page, scrapedList) # rest \<Rightarrow>
               if length (inflight s) < concurrency s
               then set_worker page (scrapePage opts page scrapedList (s\<lparr>pending := rest\<rparr>))
               else s)
      | _ \<Rightarrow> s)"
| "step opts (ItemSettled page r) s =
     (case workers s page of
        AwaitItem l details i \<Rightarrow>
          set_worker page (suspend_items page l (scrapePageItems_fetched opts l details i r s))
      | _ \<Rightarrow> s)"
| "step opts (StoreOpenSettled r) s =
     (if sqliteOpen s = Opening then createSqliteDatabase_settled r s else s)"
| "step opts (WriteSettled ok) s =
     (case writes s of
        [] \<Rightarrow> s
      | (page, e) # rest \<Rightarrow>
          if outputType opts = Some Sqlite \<and> sqliteOpen s = Opening then s
          else
            (let s1 = onItemScraped opts ok e (s\<lparr>writes := rest\<rparr>)
             in case workers s1 page of
                  AwaitWrite l details i e' \<Rightarrow>
                    set_worker page
                      (suspend_items page l (scrapePageItems_written opts l details i e' s1))
                | _ \<Rightarrow> s1))"
| "step opts AllSettled s =
     (if main s = AwaitPages \<and> pending s = [] \<and> all_finished s
      then scrapeStart_finish opts s else s)"

text \<open>The event loop from a state on, and a run of
  \<^verbatim>\<open>new ListingScraper(options).scrapeStart()\<close> under a list of events.\<close>

definition run_from :: "options \<Rightarrow> state \<Rightarrow> event list \<Rightarrow> state" where
  "run_from opts s es = foldl (\<lambda>s e. step opts e s) s es"

definition run :: "options \<Rightarrow> event list \<Rightarrow> state" where
  "run opts es = run_from (constructor opts) scrapeStart es"

section \<open>The LinkedIn entry points\<close>

text \<open>The parameter of an entry point, \<^verbatim>\<open>{ query, ...options }\<close>: the query and the rest
  of the caller's object.\<close>

record scrape_params =
  query :: string
  options :: options

text \<open>The object literals of \<^verbatim>\<open>linkedin/scraper.ts\<close>, lines 66-72, 76-83, 87-96 and
  100-108: the caller's options are spread first, the fixed properties are written after
  them.\<close>

definition scrapeJobs_options :: "scrape_params \<Rightarrow> options" where
  "scrapeJobs_options params = (options params)\<lparr>maxPages := Some 40, entityName := ''jobs''\<rparr>"

definition scrapeCompanies_options :: "scrape_params \<Rightarrow> options" where
  "scrapeCompanies_options params =
     (options params)\<lparr>maxPages := Some 100, entityName := ''companies''\<rparr>"

definition scrapeProfiles_options :: "scrape_params \<Rightarrow> options" where
  "scrapeProfiles_options params =
     (options params)\<lparr>maxPages := Some 100, entityName := ''profiles''\<rparr>"

definition scrapePosts_options :: "scrape_params \<Rightarrow> options" where
  "scrapePosts_options params =
     (options params)\<lparr>maxPages := Some 100, entityName := ''posts'',
                       skipItemRequestsStats := Some True\<rparr>"

text \<open>\<^verbatim>\<open>fetchItem\<close> of \<^verbatim>\<open>scrapePosts\<close> (lines 102-103): the short item is the detail.\<close>

definition scrapePosts_fetchItem :: "item \<Rightarrow> item_response option" where
  "scrapePosts_fetchItem it =
     (if item_id it \<noteq> [] then
        Some \<lparr>resp_id = Some (item_id it), element = Some it, resp_status = None,
              resp_error = None, resp_query = None, skipped = None\<rparr>
      else None)"

definition scrapeJobs :: "scrape_params \<Rightarrow> event list \<Rightarrow> state" where
  "scrapeJobs params es = run (scrapeJobs_options params) es"

definition scrapeCompanies :: "scrape_params \<Rightarrow> event list \<Rightarrow> state" where
  "scrapeCompanies params es = run (scrapeCompanies_options params) es"

definition scrapeProfiles :: "scrape_params \<Rightarrow> event list \<Rightarrow> state" where
  "scrapeProfiles params es = run (scrapeProfiles_options params) es"

definition scrapePosts :: "scrape_params \<Rightarrow> event list \<Rightarrow> state" where
  "scrapePosts params es = run (scrapePosts_options params) es"

section \<open>Predicates on states\<close>

text \<open>The order between the counters of \<^verbatim>\<open>this.stats\<close>.\<close>

definition stats_ok :: "stats \<Rightarrow> bool" where
  "stats_ok st = (itemsSuccess st \<le> items st \<and> pagesSuccess st \<le> pages st)"

text \<open>What \<^verbatim>\<open>fetchPage({ page: 1 })\<close> returns to \<^verbatim>\<open>scrapeStart\<close> for a settlement of the first
  \<^verbatim>\<open>fetchList\<close>: \<open>None\<close> when it was rejected, resolved to \<^verbatim>\<open>null\<close> or carried status
  402.\<close>

definition first_page :: "list_response option settled \<Rightarrow> list_response option" where
  "first_page r = fst (fetchPage_resume 1 r scrapeStart)"

text \<open>The condition of line 64, \<^verbatim>\<open>!firstPage || !totalPages\<close>.\<close>

definition nothing_to_scrape :: "options \<Rightarrow> list_response option settled \<Rightarrow> bool" where
  "nothing_to_scrape opts r =
     (first_page r = None \<or> capped_totalPages (constructor opts) (first_page r) = 0)"

fun quota_signalled :: "list_response option settled \<Rightarrow> bool" where
  "quota_signalled (Resolved (Some res)) = (list_status res = Some 402)"
| "quota_signalled r = False"

text \<open>After the bare \<^verbatim>\<open>return\<close> of line 71 nothing is pending: every event leaves the
  state as it is.\<close>

definition halted :: "state \<Rightarrow> bool" where
  "halted s =
     (main s = Returned None \<and> workers s = (\<lambda>p. Idle) \<and> writes s = []
      \<and> sqliteOpen s = NotStarted)"

text \<open>The page the queue starts next: the pages are submitted in order, and started in
  order.\<close>

definition next_page :: "state \<Rightarrow> nat" where
  "next_page s = Suc (totalPages s) - length (pending s)"

text \<open>The pending pages are the last pages, and the tasks not yet started are theirs.\<close>

definition sched_ok :: "state \<Rightarrow> bool" where
  "sched_ok s =
     (map fst (pending s) = [next_page s..<Suc (totalPages s)]
      \<and> length (pending s) \<le> totalPages s
      \<and> (\<forall>p. (workers s p = Idle) = (p = 0 \<or> next_page s \<le> p)))"

text \<open>Before page 1 has settled nothing is scheduled.\<close>

definition unstarted :: "state \<Rightarrow> bool" where
  "unstarted s = (if main s = AwaitFirstPage then totalPages s = 0 \<and> pending s = [] else True)"

text \<open>Once \<^verbatim>\<open>scrapeStart\<close> has returned the counters, they are the counters of the state,
  and every page task is over.\<close>

definition returned_ok :: "state \<Rightarrow> bool" where
  "returned_ok s =
     (case main s of
        Returned (Some st) \<Rightarrow> st = stats s \<and> pending s = [] \<and> all_finished s
      | _ \<Rightarrow> True)"

text \<open>The pages for which \<^verbatim>\<open>fetchList\<close> was called, in the order of the calls.\<close>

fun list_fetches :: "issue list \<Rightarrow> nat list" where
  "list_fetches [] = []"
| "list_fetches (IssueList d p # xs) = p # list_fetches xs"
| "list_fetches (IssueItem d p i it # xs) = list_fetches xs"


text \<open>Page 1 is submitted with the list \<^verbatim>\<open>scrapeStart\<close> fetched, the other pages without
  one.\<close>

definition pending_ok :: "state \<Rightarrow> bool" where
  "pending_ok s = list_all (\<lambda>a. (fst a = 1) = (snd a \<noteq> None)) (pending s)"

text \<open>The pages are fetched in order, none twice and none beyond the last page started;
  while \<^verbatim>\<open>done\<close> is clear, every page started has been fetched.\<close>

definition fetch_ok :: "state \<Rightarrow> bool" where
  "fetch_ok s =
     (list_fetches (issued s) = [1..<Suc (length (list_fetches (issued s)))]
      \<and> 1 \<le> length (list_fetches (issued s))
      \<and> length (list_fetches (issued s)) \<le> max 1 (next_page s - 1)
      \<and> (is_done s \<or> length (list_fetches (issued s)) = max 1 (next_page s - 1)))"






text \<open>A page task that waits for \<^verbatim>\<open>onItemScraped\<close> has its write in the queue, and the page
  queue has at least one worker.\<close>

definition write_ok :: "state \<Rightarrow> bool" where
  "write_ok s =
     ((\<forall>p l d i e. workers s p = AwaitWrite l d i e \<longrightarrow> p \<in> fst ` set (writes s))
      \<and> (main s = AwaitPages \<longrightarrow> 1 \<le> concurrency s))"

section \<open>Example inputs\<close>

definition item_a :: item where
  "item_a = \<lparr>item_id = ''a'', item_fields = [(''title'', ''first'')]\<rparr>"


text \<open>A list response with status 200, the given total page count, concurrency and
  elements.\<close>

definition page_of :: "nat \<Rightarrow> nat \<Rightarrow> item list \<Rightarrow> list_response" where
  "page_of npages conc els =
     \<lparr>list_id = Some ''list'', list_status = Some 200, list_error = None, list_query = None,
      elements = Some els, pagination_totalPages = Some npages,
      user_requestsConcurrency = Some conc\<rparr>"



definition options_of :: "output_type \<Rightarrow> bool \<Rightarrow> nat option \<Rightarrow> options" where
  "options_of out details maxp =
     \<lparr>outputType = Some out, outputDir = None, filename = None, tableName = None,
      entityName = ''things'', maxPages = maxp, scrapeDetails = Some details,
      skipItemRequestsStats = None\<rparr>"


text \<open>A call of \<^verbatim>\<open>scrapePosts\<close> with detail scraping on, and a run of it over one page
  with one post.\<close>

definition posts_params :: scrape_params where
  "posts_params = \<lparr>query = ''isabelle'', options = options_of Json True None\<rparr>"

definition posts_events :: "event list" where
  "posts_events =
     [ListSettled 1 (Resolved (Some (page_of 1 1 [item_a]))), Admit,
      ItemSettled 1 (Resolved (scrapePosts_fetchItem item_a)), WriteSettled True, AllSettled]"

text \<open>Events for a run over three pages with two workers: the third \<open>Admit\<close> finds both
  workers busy.\<close>

definition bounded_events :: "event list" where
  "bounded_events =
     [Admit, Admit, Admit, ListSettled 2 (Resolved None),
      ItemSettled 1 (Resolved None), Admit, ListSettled 3 Rejected, AllSettled]"


text \<open>Events after page 1 for a run over five pages with one worker, every page empty.\<close>

definition five_pages_events :: "event list" where
  "five_pages_events =
     [Admit, Admit, ListSettled 2 (Resolved None), Admit, ListSettled 3 (Resolved None),
      Admit, ListSettled 4 (Resolved None), Admit, ListSettled 5 (Resolved None),
      Admit, AllSettled]"


text \<open>The equation of the loop is unfolded by hand.\<close>

declare scrapePageItems_loop.simps [simp del]

section \<open>Runs\<close>

lemma run_from_induct:
  assumes "P s0" and "\<And>s e. P s \<Longrightarrow> P (step opts e s)"
  shows "P (run_from opts s0 es)"
  unfolding run_from_def
  by (induction es rule: rev_induct) (simp_all add: assms)

lemma run_induct:
  assumes "P scrapeStart" and "\<And>s e. P s \<Longrightarrow> P (step (constructor opts) e s)"
  shows "P (run opts es)"
  unfolding run_def using assms by (rule run_from_induct)

lemma run_Cons:
  "run opts (e # es) = run_from (constructor opts) (step (constructor opts) e scrapeStart) es"
  by (simp add: run_def run_from_def)

section \<open>What the pieces leave alone\<close>

lemma catch_null_frame [simp]:
  "main (snd (catch_null m r s)) = main s"
  "totalPages (snd (catch_null m r s)) = totalPages s"
  "concurrency (snd (catch_null m r s)) = concurrency s"
  "pending (snd (catch_null m r s)) = pending s"
  "workers (snd (catch_null m r s)) = workers s"
  "sqliteOpen (snd (catch_null m r s)) = sqliteOpen s"
  "writes (snd (catch_null m r s)) = writes s"
  "issued (snd (catch_null m r s)) = issued s"
  "is_done (snd (catch_null m r s)) = is_done s"
  "stats (snd (catch_null m r s)) = stats s"
  by (cases r; simp)+

lemma fetchPage_resume_frame [simp]:
  "main (snd (fetchPage_resume p r s)) = main s"
  "totalPages (snd (fetchPage_resume p r s)) = totalPages s"
  "concurrency (snd (fetchPage_resume p r s)) = concurrency s"
  "pending (snd (fetchPage_resume p r s)) = pending s"
  "workers (snd (fetchPage_resume p r s)) = workers s"
  "sqliteOpen (snd (fetchPage_resume p r s)) = sqliteOpen s"
  "writes (snd (fetchPage_resume p r s)) = writes s"
  "issued (snd (fetchPage_resume p r s)) = issued s"
  by (simp_all add: fetchPage_resume_def split_beta split: option.split)

lemma scrapePage_end_frame [simp]:
  "fst (scrapePage_end p d s) = Finished"
  "main (snd (scrapePage_end p d s)) = main s"
  "totalPages (snd (scrapePage_end p d s)) = totalPages s"
  "concurrency (snd (scrapePage_end p d s)) = concurrency s"
  "pending (snd (scrapePage_end p d s)) = pending s"
  "workers (snd (scrapePage_end p d s)) = workers s"
  "sqliteOpen (snd (scrapePage_end p d s)) = sqliteOpen s"
  "writes (snd (scrapePage_end p d s)) = writes s"
  "issued (snd (scrapePage_end p d s)) = issued s"
  "is_done (snd (scrapePage_end p d s)) = is_done s"
  "stats (snd (scrapePage_end p d s)) = stats s"
  by (simp_all add: scrapePage_end_def)

lemma suspend_items_unfold:
  "suspend_items p l ks =
     (case fst ks of
        Return d \<Rightarrow> scrapePage_end p d (snd ks)
      | FetchItem_await d i \<Rightarrow>
          (AwaitItem l d i,
           (snd ks)\<lparr>issued := issued (snd ks) @ [IssueItem (is_done (snd ks)) p i (elements_of l ! i)]\<rparr>)
      | OnItemScraped_await d i e \<Rightarrow>
          (AwaitWrite l d i e, (snd ks)\<lparr>writes := writes (snd ks) @ [(p, e)]\<rparr>))"
  by (cases ks; cases "fst ks"; simp)

lemma suspend_items_frame [simp]:
  "main (snd (suspend_items p l ks)) = main (snd ks)"
  "totalPages (snd (suspend_items p l ks)) = totalPages (snd ks)"
  "concurrency (snd (suspend_items p l ks)) = concurrency (snd ks)"
  "pending (snd (suspend_items p l ks)) = pending (snd ks)"
  "workers (snd (suspend_items p l ks)) = workers (snd ks)"
  "sqliteOpen (snd (suspend_items p l ks)) = sqliteOpen (snd ks)"
  "is_done (snd (suspend_items p l ks)) = is_done (snd ks)"
  "stats (snd (suspend_items p l ks)) = stats (snd ks)"
  by (simp_all add: suspend_items_unfold split: items_k.split)

lemma suspend_items_not_Idle [simp]: "fst (suspend_items p l ks) \<noteq> Idle"
  by (simp add: suspend_items_unfold split: items_k.split)

lemma with_stats_frame [simp]:
  "fst (with_stats s kst) = fst kst"
  "main (snd (with_stats s kst)) = main s"
  "totalPages (snd (with_stats s kst)) = totalPages s"
  "concurrency (snd (with_stats s kst)) = concurrency s"
  "pending (snd (with_stats s kst)) = pending s"
  "workers (snd (with_stats s kst)) = workers s"
  "sqliteOpen (snd (with_stats s kst)) = sqliteOpen s"
  "writes (snd (with_stats s kst)) = writes s"
  "issued (snd (with_stats s kst)) = issued s"
  "is_done (snd (with_stats s kst)) = is_done s"
  "stats (snd (with_stats s kst)) = snd kst"
  by (simp_all add: with_stats_def)

lemma scrapePageItems_frame [simp]:
  "main (snd (scrapePageItems opts l s)) = main s"
  "totalPages (snd (scrapePageItems opts l s)) = totalPages s"
  "concurrency (snd (scrapePageItems opts l s)) = concurrency s"
  "pending (snd (scrapePageItems opts l s)) = pending s"
  "workers (snd (scrapePageItems opts l s)) = workers s"
  "sqliteOpen (snd (scrapePageItems opts l s)) = sqliteOpen s"
  "writes (snd (scrapePageItems opts l s)) = writes s"
  "issued (snd (scrapePageItems opts l s)) = issued s"
  "is_done (snd (scrapePageItems opts l s)) = is_done s"
  by (simp_all add: scrapePageItems_def split: option.split)

lemma scrapePageItems_fetched_frame [simp]:
  "main (snd (scrapePageItems_fetched opts l d i r s)) = main s"
  "totalPages (snd (scrapePageItems_fetched opts l d i r s)) = totalPages s"
  "concurrency (snd (scrapePageItems_fetched opts l d i r s)) = concurrency s"
  "pending (snd (scrapePageItems_fetched opts l d i r s)) = pending s"
  "workers (snd (scrapePageItems_fetched opts l d i r s)) = workers s"
  "sqliteOpen (snd (scrapePageItems_fetched opts l d i r s)) = sqliteOpen s"
  "writes (snd (scrapePageItems_fetched opts l d i r s)) = writes s"
  "issued (snd (scrapePageItems_fetched opts l d i r s)) = issued s"
  by (simp_all add: scrapePageItems_fetched_def split_beta)

lemma scrapePageItems_written_frame [simp]:
  "main (snd (scrapePageItems_written opts l d i e s)) = main s"
  "totalPages (snd (scrapePageItems_written opts l d i e s)) = totalPages s"
  "concurrency (snd (scrapePageItems_written opts l d i e s)) = concurrency s"
  "pending (snd (scrapePageItems_written opts l d i e s)) = pending s"
  "workers (snd (scrapePageItems_written opts l d i e s)) = workers s"
  "sqliteOpen (snd (scrapePageItems_written opts l d i e s)) = sqliteOpen s"
  "writes (snd (scrapePageItems_written opts l d i e s)) = writes s"
  "issued (snd (scrapePageItems_written opts l d i e s)) = issued s"
  "is_done (snd (scrapePageItems_written opts l d i e s)) = is_done s"
  by (simp_all add: scrapePageItems_written_def)

lemma scrapePage_listed_frame [simp]:
  "main (snd (scrapePage_listed opts p l s)) = main s"
  "totalPages (snd (scrapePage_listed opts p l s)) = totalPages s"
  "concurrency (snd (scrapePage_listed opts p l s)) = concurrency s"
  "pending (snd (scrapePage_listed opts p l s)) = pending s"
  "workers (snd (scrapePage_listed opts p l s)) = workers s"
  "sqliteOpen (snd (scrapePage_listed opts p l s)) = sqliteOpen s"
  "is_done (snd (scrapePage_listed opts p l s)) = is_done s"
  by (simp_all add: scrapePage_listed_def split: option.split)

lemma scrapePage_listed_not_Idle [simp]: "fst (scrapePage_listed opts p l s) \<noteq> Idle"
  by (simp add: scrapePage_listed_def split: option.split)

lemma scrapePage_fetched_frame [simp]:
  "main (snd (scrapePage_fetched opts p r s)) = main s"
  "totalPages (snd (scrapePage_fetched opts p r s)) = totalPages s"
  "concurrency (snd (scrapePage_fetched opts p r s)) = concurrency s"
  "pending (snd (scrapePage_fetched opts p r s)) = pending s"
  "workers (snd (scrapePage_fetched opts p r s)) = workers s"
  "sqliteOpen (snd (scrapePage_fetched opts p r s)) = sqliteOpen s"
  "fst (scrapePage_fetched opts p r s) \<noteq> Idle"
  by (simp_all add: scrapePage_fetched_def split_beta)

lemma scrapePage_frame [simp]:
  "main (snd (scrapePage opts p l s)) = main s"
  "totalPages (snd (scrapePage opts p l s)) = totalPages s"
  "concurrency (snd (scrapePage opts p l s)) = concurrency s"
  "pending (snd (scrapePage opts p l s)) = pending s"
  "workers (snd (scrapePage opts p l s)) = workers s"
  "sqliteOpen (snd (scrapePage opts p l s)) = sqliteOpen s"
  "is_done (snd (scrapePage opts p l s)) = is_done s"
  "fst (scrapePage opts p l s) \<noteq> Idle"
  by (simp_all add: scrapePage_def fetchPage_call_def split: option.split)

lemma onItemScraped_frame [simp]:
  "main (onItemScraped opts ok e s) = main s"
  "totalPages (onItemScraped opts ok e s) = totalPages s"
  "concurrency (onItemScraped opts ok e s) = concurrency s"
  "pending (onItemScraped opts ok e s) = pending s"
  "workers (onItemScraped opts ok e s) = workers s"
  "sqliteOpen (onItemScraped opts ok e s) = sqliteOpen s"
  "writes (onItemScraped opts ok e s) = writes s"
  "issued (onItemScraped opts ok e s) = issued s"
  "is_done (onItemScraped opts ok e s) = is_done s"
  "stats (onItemScraped opts ok e s) = stats s"
  by (simp_all add: onItemScraped_def Let_def)

lemma createSqliteDatabase_settled_frame [simp]:
  "main (createSqliteDatabase_settled r s) = main s"
  "totalPages (createSqliteDatabase_settled r s) = totalPages s"
  "concurrency (createSqliteDatabase_settled r s) = concurrency s"
  "pending (createSqliteDatabase_settled r s) = pending s"
  "workers (createSqliteDatabase_settled r s) = workers s"
  "writes (createSqliteDatabase_settled r s) = writes s"
  "issued (createSqliteDatabase_settled r s) = issued s"
  "stats (createSqliteDatabase_settled r s) = stats s"
  by (cases r; simp)+

lemma log_errors_frame [simp]:
  "main (log_errors s) = main s"
  "totalPages (log_errors s) = totalPages s"
  "concurrency (log_errors s) = concurrency s"
  "pending (log_errors s) = pending s"
  "workers (log_errors s) = workers s"
  "sqliteOpen (log_errors s) = sqliteOpen s"
  "writes (log_errors s) = writes s"
  "issued (log_errors s) = issued s"
  "is_done (log_errors s) = is_done s"
  "stats (log_errors s) = stats s"
  by (simp_all add: log_errors_def split: option.split)

lemma finalize_frame [simp]:
  "main (finalize opts s) = main s"
  "totalPages (finalize opts s) = totalPages s"
  "concurrency (finalize opts s) = concurrency s"
  "pending (finalize opts s) = pending s"
  "workers (finalize opts s) = workers s"
  "sqliteOpen (finalize opts s) = sqliteOpen s"
  "writes (finalize opts s) = writes s"
  "issued (finalize opts s) = issued s"
  "is_done (finalize opts s) = is_done s"
  "stats (finalize opts s) = stats s"
  by (simp_all add: finalize_def Let_def)

lemma scrapeStart_finish_frame [simp]:
  "main (scrapeStart_finish opts s) = Returned (Some (stats s))"
  "totalPages (scrapeStart_finish opts s) = totalPages s"
  "concurrency (scrapeStart_finish opts s) = concurrency s"
  "pending (scrapeStart_finish opts s) = pending s"
  "workers (scrapeStart_finish opts s) = workers s"
  "sqliteOpen (scrapeStart_finish opts s) = sqliteOpen s"
  "writes (scrapeStart_finish opts s) = writes s"
  "issued (scrapeStart_finish opts s) = issued s"
  "is_done (scrapeStart_finish opts s) = is_done s"
  "stats (scrapeStart_finish opts s) = stats s"
  by (simp_all add: scrapeStart_finish_def Let_def)

lemma set_worker_frame [simp]:
  "main (set_worker p ws) = main (snd ws)"
  "totalPages (set_worker p ws) = totalPages (snd ws)"
  "concurrency (set_worker p ws) = concurrency (snd ws)"
  "pending (set_worker p ws) = pending (snd ws)"
  "workers (set_worker p ws) = (workers (snd ws))(p := fst ws)"
  "sqliteOpen (set_worker p ws) = sqliteOpen (snd ws)"
  "writes (set_worker p ws) = writes (snd ws)"
  "issued (set_worker p ws) = issued (snd ws)"
  "is_done (set_worker p ws) = is_done (snd ws)"
  "stats (set_worker p ws) = stats (snd ws)"
  by (simp_all add: set_worker_def split_beta)

section \<open>The hard-coded page ceilings\<close>


section \<open>The counters\<close>

lemma item_tail_ok:
  "stats_ok st \<Longrightarrow> stats_ok (snd (item_tail opts d i r st))"
  by (simp add: stats_ok_def item_tail_def count_item_def Let_def split: option.split)

lemma loop_ok:
  "stats_ok st \<Longrightarrow> stats_ok (snd (scrapePageItems_loop opts l d i st))"
proof (induction opts l d i st rule: scrapePageItems_loop.induct)
  case (1 opts list details i st)
  show ?case
    using "1.prems" "1.IH"
      item_tail_ok[OF "1.prems", of opts details i "Some (synthesized list (elements_of list ! i))"]
    by (subst scrapePageItems_loop.simps) (auto split: prod.splits option.splits)
qed

lemma fetched_ok:
  "stats_ok (stats s) \<Longrightarrow> stats_ok (stats (snd (scrapePageItems_fetched opts l d i r s)))"
  using item_tail_ok loop_ok
  by (simp add: scrapePageItems_fetched_def split_beta split: option.split)

lemma written_ok:
  "stats_ok (stats s) \<Longrightarrow> stats_ok (stats (snd (scrapePageItems_written opts l d i e s)))"
  by (simp add: scrapePageItems_written_def loop_ok)

lemma listed_ok:
  "stats_ok (stats s) \<Longrightarrow> stats_ok (stats (snd (scrapePage_listed opts p l s)))"
  by (simp add: scrapePage_listed_def scrapePageItems_def loop_ok split: option.split)

lemma fetchPage_resume_ok:
  "stats_ok (stats s) \<Longrightarrow> stats_ok (stats (snd (fetchPage_resume p r s)))"
  by (cases r) (simp_all add: fetchPage_resume_def stats_ok_def split: option.split)

lemma page_fetched_ok:
  "stats_ok (stats s) \<Longrightarrow> stats_ok (stats (snd (scrapePage_fetched opts p r s)))"
  by (simp add: scrapePage_fetched_def split_beta listed_ok fetchPage_resume_ok)

lemma page_ok:
  "stats_ok (stats s) \<Longrightarrow> stats_ok (stats (snd (scrapePage opts p l s)))"
  by (simp add: scrapePage_def fetchPage_call_def listed_ok split: option.split)

lemma start_resume_ok:
  "stats_ok (stats s) \<Longrightarrow> stats_ok (stats (scrapeStart_resume opts fp s))"
  by (simp add: scrapeStart_resume_def Let_def stats_ok_def)

lemma step_ok:
  assumes "stats_ok (stats s)"
  shows "stats_ok (stats (step opts e s))"
proof (cases e)
  case (ListSettled p r)
  then show ?thesis using assms
    by (auto simp add: split_beta start_resume_ok fetchPage_resume_ok page_fetched_ok
        split: main_frame.split worker.split)
next
  case Admit
  then show ?thesis using assms
    by (auto simp add: page_ok split: main_frame.split list.split)
next
  case (ItemSettled p r)
  then show ?thesis using assms by (auto simp add: fetched_ok split: worker.split)
next
  case (StoreOpenSettled r)
  then show ?thesis using assms by simp
next
  case (WriteSettled ok)
  then show ?thesis using assms
    by (auto simp add: written_ok Let_def split: list.split worker.split)
next
  case AllSettled
  then show ?thesis using assms by simp
qed

lemma returned_counters_step:
  assumes "stats_ok (stats s)" and "\<forall>st. main s = Returned (Some st) \<longrightarrow> stats_ok st"
  shows "\<forall>st. main (step opts e s) = Returned (Some st) \<longrightarrow> stats_ok st"
proof (cases e)
  case (ListSettled p r)
  then show ?thesis using assms
    by (auto simp add: split_beta scrapeStart_resume_def Let_def
        split: main_frame.split worker.split if_splits)
next
  case Admit
  then show ?thesis using assms
    by (auto split: main_frame.split list.split)
next
  case (ItemSettled p r)
  then show ?thesis using assms by (auto split: worker.split)
next
  case (StoreOpenSettled r)
  then show ?thesis using assms by simp
next
  case (WriteSettled ok)
  then show ?thesis using assms
    by (auto simp add: Let_def split: list.split worker.split)
next
  case AllSettled
  then show ?thesis using assms by auto
qed

text \<open>
  C5. In every state a run reaches, whatever the events and their order,
  \<^verbatim>\<open>itemsSuccess\<close> is at most \<^verbatim>\<open>items\<close> and \<^verbatim>\<open>pagesSuccess\<close> is at most \<^verbatim>\<open>pages\<close>; the
  same holds of the counters \<^verbatim>\<open>scrapeStart\<close> returns.
\<close>

theorem counters_ordered:
  "itemsSuccess (stats (run opts es)) \<le> items (stats (run opts es))
   \<and> pagesSuccess (stats (run opts es)) \<le> pages (stats (run opts es))
   \<and> (\<forall>st. main (run opts es) = Returned (Some st)
         \<longrightarrow> itemsSuccess st \<le> items st \<and> pagesSuccess st \<le> pages st)"
proof -
  have "stats_ok (stats (run opts es))
        \<and> (\<forall>st. main (run opts es) = Returned (Some st) \<longrightarrow> stats_ok st)"
  proof (induction rule: run_induct)
    case 1
    show ?case
      by (simp add: scrapeStart_def initial_def fetchPage_call_def stats_ok_def)
  next
    case (2 s e)
    then show ?case using step_ok returned_counters_step by blast
  qed
  then show ?thesis by (simp add: stats_ok_def)
qed

theorem counters_ordered_witness:
  "main (run (options_of Json False None)
           [ListSettled 1 (Resolved (Some (page_of 1 1 [item_a]))), Admit, WriteSettled True,
            AllSettled])
     = Returned (Some \<lparr>pages = 1, pagesSuccess = 1, items = 1, itemsSuccess = 1, requests = 1\<rparr>)
   \<and> itemsSuccess \<lparr>pages = 1, pagesSuccess = 1, items = 1, itemsSuccess = 1, requests = 1\<rparr>
       \<le> items \<lparr>pages = 1, pagesSuccess = 1, items = 1, itemsSuccess = 1, requests = 1\<rparr>
   \<and> pagesSuccess \<lparr>pages = 1, pagesSuccess = 1, items = 1, itemsSuccess = 1, requests = 1\<rparr>
       \<le> pages \<lparr>pages = 1, pagesSuccess = 1, items = 1, itemsSuccess = 1, requests = 1\<rparr>"
proof -
  have m: "main (run (options_of Json False None)
           [ListSettled 1 (Resolved (Some (page_of 1 1 [item_a]))), Admit, WriteSettled True,
            AllSettled])
     = Returned (Some \<lparr>pages = 1, pagesSuccess = 1, items = 1, itemsSuccess = 1, requests = 1\<rparr>)"
    by code_simp
  from counters_ordered
    [of "options_of Json False None"
        "[ListSettled 1 (Resolved (Some (page_of 1 1 [item_a]))), Admit, WriteSettled True,
          AllSettled]"] m
  show ?thesis by simp
qed

section \<open>A quota signal on an item\<close>



section \<open>The option skipItemRequestsStats\<close>

lemma loop_ignores_skip:
  "scrapePageItems_loop (opts\<lparr>skipItemRequestsStats := b\<rparr>) l d i st
     = scrapePageItems_loop opts l d i st"
proof (induction opts l d i st rule: scrapePageItems_loop.induct)
  case (1 opts list details i st)
  have t: "item_tail (opts\<lparr>skipItemRequestsStats := b\<rparr>) details i r st = item_tail opts details i r st"
    for r
    by (simp add: item_tail_def count_item_def)
  show ?case
    using "1.IH"
    by (subst scrapePageItems_loop.simps, subst (2) scrapePageItems_loop.simps)
       (auto simp add: t split: prod.splits option.splits)
qed

lemma capped_ignores_skip:
  "capped_totalPages (opts\<lparr>skipItemRequestsStats := b\<rparr>) fp = capped_totalPages opts fp"
  by (simp add: capped_totalPages_def)

lemma pieces_ignore_skip:
  "scrapeStart_resume (opts\<lparr>skipItemRequestsStats := b\<rparr>) fp s = scrapeStart_resume opts fp s"
  "scrapePageItems (opts\<lparr>skipItemRequestsStats := b\<rparr>) l s = scrapePageItems opts l s"
  "scrapePageItems_fetched (opts\<lparr>skipItemRequestsStats := b\<rparr>) l d i r s
     = scrapePageItems_fetched opts l d i r s"
  "scrapePageItems_written (opts\<lparr>skipItemRequestsStats := b\<rparr>) l d i e s
     = scrapePageItems_written opts l d i e s"
  "onItemScraped (opts\<lparr>skipItemRequestsStats := b\<rparr>) ok e s = onItemScraped opts ok e s"
  "scrapeStart_finish (opts\<lparr>skipItemRequestsStats := b\<rparr>) s = scrapeStart_finish opts s"
  by (simp_all add: scrapeStart_resume_def capped_ignores_skip scrapePageItems_def
      scrapePageItems_fetched_def scrapePageItems_written_def item_tail_def count_item_def
      onItemScraped_def scrapeStart_finish_def finalize_def loop_ignores_skip Let_def
      split: option.split prod.split)

lemma pages_ignore_skip:
  "scrapePage_listed (opts\<lparr>skipItemRequestsStats := b\<rparr>) p lo s = scrapePage_listed opts p lo s"
  "scrapePage_fetched (opts\<lparr>skipItemRequestsStats := b\<rparr>) p r s = scrapePage_fetched opts p r s"
  "scrapePage (opts\<lparr>skipItemRequestsStats := b\<rparr>) p lo s = scrapePage opts p lo s"
proof -
  show l: "scrapePage_listed (opts\<lparr>skipItemRequestsStats := b\<rparr>) p lo s
             = scrapePage_listed opts p lo s" for p lo s
    by (simp add: scrapePage_listed_def pieces_ignore_skip split: option.split)
  show "scrapePage_fetched (opts\<lparr>skipItemRequestsStats := b\<rparr>) p r s
          = scrapePage_fetched opts p r s"
    by (simp add: scrapePage_fetched_def l split: prod.split)
  show "scrapePage (opts\<lparr>skipItemRequestsStats := b\<rparr>) p lo s = scrapePage opts p lo s"
    by (simp add: scrapePage_def l split: option.split)
qed

lemma step_ignores_skip:
  "step (opts\<lparr>skipItemRequestsStats := b\<rparr>) e s = step opts e s"
  by (cases e)
     (simp_all add: pieces_ignore_skip pages_ignore_skip Let_def
       split: main_frame.split worker.split list.split prod.split)

lemma run_ignores_skip: "run (opts\<lparr>skipItemRequestsStats := b\<rparr>) es = run opts es"
proof -
  have c: "constructor (opts\<lparr>skipItemRequestsStats := b\<rparr>)
             = (constructor opts)\<lparr>skipItemRequestsStats := b\<rparr>"
    by (simp add: constructor_def split: option.split)
  have "run_from ((constructor opts)\<lparr>skipItemRequestsStats := b\<rparr>) s es
          = run_from (constructor opts) s es" for s
    by (simp add: run_from_def step_ignores_skip)
  then show ?thesis by (simp add: run_def c)
qed

text \<open>
  C9. \<^verbatim>\<open>scrapePosts\<close> always sets \<^verbatim>\<open>skipItemRequestsStats\<close>. With detail scraping on, a
  run over one page with one post calls \<^verbatim>\<open>fetchList\<close> once and nothing else over the
  network, and still returns \<^verbatim>\<open>requests = 2\<close>: the resolved item was counted as a request.
  The engine never reads the option: with any value of it, every run is the same.
\<close>

theorem skipItemRequestsStats_not_honoured:
  "skipItemRequestsStats (constructor (scrapePosts_options posts_params)) = Some True
   \<and> list_fetches (issued (scrapePosts posts_params posts_events)) = [1]
   \<and> main (scrapePosts posts_params posts_events)
       = Returned (Some \<lparr>pages = 1, pagesSuccess = 1, items = 1, itemsSuccess = 1, requests = 2\<rparr>)
   \<and> run (opts\<lparr>skipItemRequestsStats := b\<rparr>) es = run opts es"
proof -
  have "skipItemRequestsStats (constructor (scrapePosts_options posts_params)) = Some True"
    "list_fetches (issued (scrapePosts posts_params posts_events)) = [1]"
    "main (scrapePosts posts_params posts_events)
       = Returned (Some \<lparr>pages = 1, pagesSuccess = 1, items = 1, itemsSuccess = 1, requests = 2\<rparr>)"
    by code_simp+
  with run_ignores_skip show ?thesis by simp
qed

section \<open>Nothing to scrape\<close>

text \<open>After the bare \<^verbatim>\<open>return\<close> of line 71 nothing is pending: every event leaves the
  state as it is.\<close>

lemma halted_step: "halted s \<Longrightarrow> step opts e s = s"
  by (cases e) (simp_all add: halted_def)

lemma halted_run_from: "halted s \<Longrightarrow> run_from opts s es = s"
  by (induction es rule: rev_induct) (simp_all add: run_from_def halted_step)

lemma first_event:
  "step opts (ListSettled 1 r) scrapeStart
     = scrapeStart_resume opts (first_page r) (snd (fetchPage_resume 1 r scrapeStart))"
  by (simp add: first_page_def split_beta scrapeStart_def initial_def fetchPage_call_def)

lemma fetchPage_resume_first:
  "snd (fetchPage_resume 1 r scrapeStart)
     = scrapeStart
         \<lparr>is_done := quota_signalled r,
          error := (case r of Resolved (Some res) \<Rightarrow>
                      if list_status res = Some 402 then Some (error_or_default (list_error res))
                      else None
                    | _ \<Rightarrow> None),
          console := (case r of Rejected \<Rightarrow> [Msg_error_fetching_page 1] | _ \<Rightarrow> []),
          stats := (if quota_signalled r then stats scrapeStart
                    else \<lparr>pages = 1,
                          pagesSuccess = (case first_page r of None \<Rightarrow> 0
                                          | Some res \<Rightarrow> if truthy_str (list_id res) then 1 else 0),
                          items = 0, itemsSuccess = 0, requests = 1\<rparr>)\<rparr>"
  by (cases r rule: quota_signalled.cases)
     (simp_all add: first_page_def fetchPage_resume_def scrapeStart_def initial_def fetchPage_call_def)

lemma nothing_to_scrape_halts:
  assumes "nothing_to_scrape opts r"
  shows "run opts (ListSettled 1 r # es)
           = scrapeStart_resume (constructor opts) (first_page r)
               (snd (fetchPage_resume 1 r scrapeStart))"
    and "halted (run opts (ListSettled 1 r # es))"
proof -
  let ?s1 = "step (constructor opts) (ListSettled 1 r) scrapeStart"
  have s1: "?s1 = scrapeStart_resume (constructor opts) (first_page r)
                    (snd (fetchPage_resume 1 r scrapeStart))"
    by (rule first_event)
  have h: "halted ?s1"
    using assms unfolding s1 fetchPage_resume_first
    by (auto simp add: nothing_to_scrape_def scrapeStart_resume_def halted_def Let_def
        scrapeStart_def initial_def fetchPage_call_def)
  have run: "run opts (ListSettled 1 r # es) = ?s1"
    unfolding run_Cons by (rule halted_run_from[OF h])
  from run s1 show "run opts (ListSettled 1 r # es)
           = scrapeStart_resume (constructor opts) (first_page r)
               (snd (fetchPage_resume 1 r scrapeStart))" by simp
  from run h show "halted (run opts (ListSettled 1 r # es))" by simp
qed

text \<open>
  C3, as the code has it. When the fetch of page 1 is rejected, resolves to \<^verbatim>\<open>null\<close>,
  signals quota exhaustion, or reports a zero or absent \<^verbatim>\<open>totalPages\<close>, then whatever
  events follow: \<^verbatim>\<open>scrapeStart\<close> has returned \<^verbatim>\<open>undefined\<close> with \<^verbatim>\<open>done\<close> set, the one call
  of a collaborator is the fetch of page 1, no page task was ever started, and the
  counters show no item; \<^verbatim>\<open>pages\<close> and \<^verbatim>\<open>requests\<close> are 1, the fetch of page 1 being
  counted, and 0 only after a quota signal.
\<close>

theorem nothing_to_scrape_run:
  assumes "nothing_to_scrape opts r"
  shows "main (run opts (ListSettled 1 r # es)) = Returned None
         \<and> is_done (run opts (ListSettled 1 r # es))
         \<and> issued (run opts (ListSettled 1 r # es)) = [IssueList False 1]
         \<and> workers (run opts (ListSettled 1 r # es)) = (\<lambda>p. Idle)
         \<and> pending (run opts (ListSettled 1 r # es)) = []
         \<and> items (stats (run opts (ListSettled 1 r # es))) = 0
         \<and> itemsSuccess (stats (run opts (ListSettled 1 r # es))) = 0
         \<and> pages (stats (run opts (ListSettled 1 r # es))) = (if quota_signalled r then 0 else 1)
         \<and> requests (stats (run opts (ListSettled 1 r # es))) = (if quota_signalled r then 0 else 1)"
  using assms
  unfolding nothing_to_scrape_halts(1)[OF assms] fetchPage_resume_first
  by (auto simp add: nothing_to_scrape_def scrapeStart_resume_def Let_def
      scrapeStart_def initial_def fetchPage_call_def)

theorem nothing_to_scrape_run_witness:
  "nothing_to_scrape (options_of Sqlite True None) (Resolved (Some (page_of 0 2 [item_a])))
   \<and> main (run (options_of Sqlite True None)
              [ListSettled 1 (Resolved (Some (page_of 0 2 [item_a]))), Admit, AllSettled])
       = Returned None
   \<and> issued (run (options_of Sqlite True None)
              [ListSettled 1 (Resolved (Some (page_of 0 2 [item_a]))), Admit, AllSettled])
       = [IssueList False 1]
   \<and> pages (stats (run (options_of Sqlite True None)
              [ListSettled 1 (Resolved (Some (page_of 0 2 [item_a]))), Admit, AllSettled])) = 1
   \<and> items (stats (run (options_of Sqlite True None)
              [ListSettled 1 (Resolved (Some (page_of 0 2 [item_a]))), Admit, AllSettled])) = 0"
proof -
  have h: "nothing_to_scrape (options_of Sqlite True None) (Resolved (Some (page_of 0 2 [item_a])))"
    by code_simp
  from nothing_to_scrape_run[OF h, of "[Admit, AllSettled]"] h show ?thesis
    by (simp add: page_of_def)
qed

theorem zero_pages_counterexample:
  "nothing_to_scrape (options_of Json True None) (Resolved None)
   \<and> main (run (options_of Json True None) [ListSettled 1 (Resolved None)]) = Returned None
   \<and> pages (stats (run (options_of Json True None) [ListSettled 1 (Resolved None)])) = 1
   \<and> nothing_to_scrape (options_of Json True None) (Resolved (Some (page_of 0 1 [])))
   \<and> main (run (options_of Json True None) [ListSettled 1 (Resolved (Some (page_of 0 1 [])))])
       = Returned None
   \<and> pages (stats (run (options_of Json True None)
                       [ListSettled 1 (Resolved (Some (page_of 0 1 [])))])) = 1"
  by code_simp

section \<open>The order of the page tasks\<close>

lemma sched_ok_start: "sched_ok scrapeStart"
  by (auto simp add: sched_ok_def next_page_def scrapeStart_def initial_def fetchPage_call_def)

lemma sched_ok_worker:
  assumes "sched_ok s" and "workers s p \<noteq> Idle" and "fst ws \<noteq> Idle"
    and "pending (snd ws) = pending s" and "totalPages (snd ws) = totalPages s"
    and "workers (snd ws) = workers s"
  shows "sched_ok (set_worker p ws)"
  using assms by (auto simp add: sched_ok_def next_page_def)

lemma sched_ok_resume:
  assumes "sched_ok s" and "totalPages s = 0" and "pending s = []"
  shows "sched_ok (scrapeStart_resume opts fp (snd (fetchPage_resume p r s)))"
  using assms
  by (simp add: sched_ok_def next_page_def scrapeStart_resume_def Let_def comp_def
      del: upt_Suc)

lemma sched_ok_admit:
  assumes "sched_ok s" and "pending s = (p, sl) # rest"
  shows "sched_ok (set_worker p (scrapePage opts p sl (s\<lparr>pending := rest\<rparr>)))"
proof -
  from assms have eq: "[next_page s..<Suc (totalPages s)] = p # map fst rest"
    by (simp add: sched_ok_def del: upt_Suc)
  then have k: "p = next_page s" and r: "map fst rest = [Suc p..<Suc (totalPages s)]"
    and le: "p \<le> totalPages s"
    by (auto simp add: upt_eq_Cons_conv simp del: upt_Suc)
  from assms have len: "Suc (length rest) \<le> totalPages s"
    by (simp add: sched_ok_def)
  with k assms have p: "p = totalPages s - length rest"
    by (simp add: next_page_def)
  have idle: "(workers s q = Idle) = (q = 0 \<or> p \<le> q)" for q
    using assms k by (simp add: sched_ok_def)
  let ?s' = "set_worker p (scrapePage opts p sl (s\<lparr>pending := rest\<rparr>))"
  have f: "pending ?s' = rest" "totalPages ?s' = totalPages s"
    "workers ?s' = (workers s)(p := fst (scrapePage opts p sl (s\<lparr>pending := rest\<rparr>)))"
    by simp_all
  have n: "next_page ?s' = Suc p"
    using len p by (simp add: next_page_def f)
  have w: "(workers ?s' q = Idle) = (q = 0 \<or> Suc p \<le> q)" for q
    using idle[of q] idle[of p] len p by (auto simp add: f)
  show ?thesis
    unfolding sched_ok_def n using r len w by (simp add: f del: upt_Suc)
qed

lemma unstarted_step: "unstarted s \<Longrightarrow> unstarted (step opts e s)"
  by (cases e)
     (auto simp add: unstarted_def split_beta scrapeStart_resume_def Let_def
       split: main_frame.splits worker.splits list.splits if_splits)

lemma sched_ok_step:
  assumes "sched_ok s" and "unstarted s"
  shows "sched_ok (step opts e s)"
proof (cases e)
  case (ListSettled p r)
  show ?thesis
  proof (cases "main s")
    case AwaitFirstPage
    then show ?thesis using ListSettled assms
      by (auto simp add: split_beta unstarted_def intro!: sched_ok_resume)
  next
    case AwaitPages
    then show ?thesis using ListSettled assms
      by (auto intro!: sched_ok_worker split: worker.split)
  next
    case (Returned v)
    then show ?thesis using ListSettled assms by simp
  qed
next
  case Admit
  then show ?thesis using assms
    by (auto intro!: sched_ok_admit split: main_frame.split list.split)
next
  case (ItemSettled p r)
  then show ?thesis using assms
    by (auto intro!: sched_ok_worker split: worker.split)
next
  case (StoreOpenSettled r)
  then show ?thesis using assms by (auto simp add: sched_ok_def next_page_def)
next
  case (WriteSettled ok)
  have "sched_ok (onItemScraped opts ok e (s\<lparr>writes := ws\<rparr>))" for e ws
    using assms by (simp add: sched_ok_def next_page_def)
  then show ?thesis using WriteSettled assms
    by (auto simp add: Let_def intro!: sched_ok_worker split: list.split worker.split)
next
  case AllSettled
  then show ?thesis using assms by (auto simp add: sched_ok_def next_page_def)
qed

lemma sched_ok_run: "sched_ok (run opts es) \<and> unstarted (run opts es)"
proof (induction rule: run_induct)
  case 1
  show ?case
    by (simp add: sched_ok_start) (simp add: unstarted_def scrapeStart_def initial_def fetchPage_call_def)
next
  case (2 s e)
  then show ?case by (simp add: sched_ok_step unstarted_step)
qed

section \<open>The value scrapeStart returns\<close>

lemma main_step_cases:
  obtains (same) "main (step opts e s) = main s"
  | (first) "main s = AwaitFirstPage"
      "main (step opts e s) = AwaitPages \<or> main (step opts e s) = Returned None"
  | (finish) "main s = AwaitPages" "e = AllSettled" "pending s = []" "all_finished s"
      "step opts e s = scrapeStart_finish opts s"
proof (cases e)
  case (ListSettled p r)
  show ?thesis
  proof (cases "main s = AwaitFirstPage \<and> p = 1")
    case True
    then have "main (step opts e s) = AwaitPages \<or> main (step opts e s) = Returned None"
      using ListSettled by (simp add: split_beta scrapeStart_resume_def Let_def)
    with True first show ?thesis by blast
  next
    case False
    then have "main (step opts e s) = main s"
      using ListSettled by (auto split: main_frame.split worker.split)
    with same show ?thesis by blast
  qed
next
  case Admit
  then have "main (step opts e s) = main s"
    by (auto split: main_frame.split list.split)
  with same show ?thesis by blast
next
  case (ItemSettled p r)
  then have "main (step opts e s) = main s"
    by (auto split: worker.split)
  with same show ?thesis by blast
next
  case (StoreOpenSettled r)
  then have "main (step opts e s) = main s" by simp
  with same show ?thesis by blast
next
  case (WriteSettled ok)
  then have "main (step opts e s) = main s"
    by (auto simp add: Let_def split: list.split worker.split)
  with same show ?thesis by blast
next
  case AllSettled
  show ?thesis
  proof (cases "main s = AwaitPages \<and> pending s = [] \<and> all_finished s")
    case True
    with AllSettled finish show ?thesis by simp
  next
    case False
    with AllSettled have "main (step opts e s) = main s" by auto
    with same show ?thesis by blast
  qed
qed


lemma all_finished_cong:
  "workers s' = workers s \<Longrightarrow> totalPages s' = totalPages s \<Longrightarrow> all_finished s' = all_finished s"
  by (simp add: all_finished_def)

lemma sched_ok_Idle: "sched_ok s \<Longrightarrow> (workers s p = Idle) = (p = 0 \<or> next_page s \<le> p)"
  unfolding sched_ok_def by blast

lemma quiet_after_return:
  assumes "sched_ok s" and "pending s = []" and "all_finished s"
  shows "\<not> active (workers s p)"
proof (cases "p = 0 \<or> totalPages s < p")
  case True
  with assms(2) have "p = 0 \<or> next_page s \<le> p" by (auto simp add: next_page_def)
  with sched_ok_Idle[OF assms(1), of p] have "workers s p = Idle" by simp
  then show ?thesis by simp
next
  case False
  then have "p \<in> set [1..<Suc (totalPages s)]" by auto
  with assms(3) have "workers s p = Finished"
    unfolding all_finished_def list_all_iff by blast
  then show ?thesis by simp
qed

lemma returned_ok_other:
  "main s = AwaitFirstPage \<or> main s = AwaitPages \<or> main s = Returned None \<Longrightarrow> returned_ok s"
  by (auto simp add: returned_ok_def)

lemma returned_ok_step:
  assumes "returned_ok s" and "sched_ok s"
  shows "returned_ok (step opts e s)"
proof (cases "\<exists>st. main s = Returned (Some st)")
  case False
  then have m: "main s = AwaitFirstPage \<or> main s = AwaitPages \<or> main s = Returned None"
    by (cases "main s") auto
  show ?thesis
  proof (cases rule: main_step_cases[of opts e s])
    case same
    with m show ?thesis by (auto intro: returned_ok_other)
  next
    case first
    then show ?thesis by (auto intro: returned_ok_other)
  next
    case finish
    then show ?thesis
      by (simp add: returned_ok_def all_finished_cong[of "scrapeStart_finish opts s" s])
  qed
next
  case True
  then obtain st where Returned: "main s = Returned (Some st)" by blast
  with assms have q: "\<not> active (workers s p)" for p
    using quiet_after_return[where s=s and p=p] by (simp add: returned_ok_def)
  from Returned assms have r: "st = stats s" "pending s = []" "all_finished s"
    by (auto simp add: returned_ok_def)
  show ?thesis
  proof (cases e)
    case (ListSettled p r)
    then show ?thesis using assms Returned by simp
  next
    case Admit
    then show ?thesis using assms Returned by simp
  next
    case (ItemSettled p r)
    then show ?thesis using assms(1) q[of p] by (cases "workers s p") simp_all
  next
    case (StoreOpenSettled r)
    then show ?thesis using assms(1) Returned r
      by (simp add: returned_ok_def all_finished_cong[of "createSqliteDatabase_settled r s" s])
  next
    case (WriteSettled ok)
    have a: "returned_ok (onItemScraped opts ok e (s\<lparr>writes := ws\<rparr>))" for e ws
      using assms(1) Returned r
      by (simp add: returned_ok_def all_finished_cong[of "onItemScraped opts ok e (s\<lparr>writes := ws\<rparr>)" s])
    have b: "\<not> active (workers (onItemScraped opts ok e (s\<lparr>writes := ws\<rparr>)) p)" for e ws p
      using q[of p] by simp
    show ?thesis
    proof (cases "writes s")
      case Nil
      then show ?thesis using WriteSettled assms(1) by simp
    next
      case (Cons pe ws)
      obtain p e where pe: "pe = (p, e)" by force
      show ?thesis
        using WriteSettled assms(1) Cons pe a[of e ws] b[of e ws p]
        by (cases "workers (onItemScraped opts ok e (s\<lparr>writes := ws\<rparr>)) p")
           (simp_all add: Let_def)
    qed
  next
    case AllSettled
    then show ?thesis using assms(1) Returned by simp
  qed
qed


lemma run_invariants: "sched_ok (run opts es) \<and> unstarted (run opts es) \<and> returned_ok (run opts es)"
proof (induction rule: run_induct)
  case 1
  show ?case
    by (simp add: sched_ok_start)
       (simp add: unstarted_def returned_ok_def scrapeStart_def initial_def fetchPage_call_def)
next
  case (2 s e)
  then show ?case by (simp add: sched_ok_step unstarted_step returned_ok_step)
qed



section \<open>The page tasks in flight\<close>

lemma filter_update_le:
  "distinct xs \<Longrightarrow>
   length (filter (\<lambda>q. P ((f(p := x)) q)) xs) \<le> Suc (length (filter (\<lambda>q. P (f q)) xs))"
proof (induction xs)
  case Nil
  show ?case by simp
next
  case (Cons a xs)
  show ?case
  proof (cases "a = p")
    case True
    with Cons.prems have "p \<notin> set xs" by simp
    then have "filter (\<lambda>q. P ((f(p := x)) q)) xs = filter (\<lambda>q. P (f q)) xs"
      by (intro filter_cong) auto
    with True show ?thesis by simp
  next
    case False
    with Cons show ?thesis by simp
  qed
qed

lemma filter_update_active:
  "P (f p) \<Longrightarrow>
   length (filter (\<lambda>q. P ((f(p := x)) q)) xs) \<le> length (filter (\<lambda>q. P (f q)) xs)"
  by (induction xs) auto

lemma inflight_worker:
  assumes "active (workers s p)" and "totalPages (snd ws) = totalPages s"
    and "workers (snd ws) = workers s"
  shows "length (inflight (set_worker p ws)) \<le> length (inflight s)"
  using assms filter_update_active[of active "workers s" p "fst ws" "[1..<Suc (totalPages s)]"]
  by (simp add: inflight_def del: upt_Suc)

lemma inflight_admit:
  assumes "totalPages (snd ws) = totalPages s" and "workers (snd ws) = workers s"
  shows "length (inflight (set_worker p ws)) \<le> Suc (length (inflight s))"
  using assms filter_update_le[of "[1..<Suc (totalPages s)]" active "workers s" p "fst ws"]
  by (simp add: inflight_def del: upt_Suc)

lemma inflight_same:
  "totalPages s' = totalPages s \<Longrightarrow> workers s' = workers s \<Longrightarrow> inflight s' = inflight s"
  by (simp add: inflight_def)

lemma inflight_none: "workers s = (\<lambda>p. Idle) \<Longrightarrow> inflight s = []"
  by (simp add: inflight_def)

lemma unstarted_Idle:
  assumes "sched_ok s" and "unstarted s" and "main s = AwaitFirstPage"
  shows "workers s = (\<lambda>p. Idle)"
proof
  fix p
  from assms have "next_page s = 1" by (simp add: unstarted_def next_page_def)
  with sched_ok_Idle[OF assms(1), of p] show "workers s p = Idle" by auto
qed

lemma inflight_step:
  assumes "length (inflight s) \<le> concurrency s" and "sched_ok s" and "unstarted s"
  shows "length (inflight (step opts e s)) \<le> concurrency (step opts e s)"
proof (cases e)
  case (ListSettled p r)
  show ?thesis
  proof (cases "main s")
    case AwaitFirstPage
    have "inflight (scrapeStart_resume opts fp (snd (fetchPage_resume 1 r s))) = []" for fp
      using unstarted_Idle[OF assms(2,3) AwaitFirstPage]
      by (intro inflight_none) (simp add: scrapeStart_resume_def Let_def)
    with AwaitFirstPage ListSettled assms(1) show ?thesis
      by (simp add: split_beta)
  next
    case AwaitPages
    show ?thesis
    proof (cases "workers s p = AwaitList")
      case True
      with inflight_worker[of s p "scrapePage_fetched opts p r s"] assms(1) AwaitPages ListSettled
      show ?thesis by simp
    next
      case False
      with AwaitPages ListSettled assms(1) show ?thesis by (cases "workers s p") simp_all
    qed
  next
    case (Returned v)
    with ListSettled assms(1) show ?thesis by simp
  qed
next
  case Admit
  show ?thesis
  proof (cases "main s = AwaitPages \<and> pending s \<noteq> [] \<and> length (inflight s) < concurrency s")
    case True
    then obtain p sl rest where pe: "pending s = (p, sl) # rest"
      by (cases "pending s") auto
    have "inflight (s\<lparr>pending := rest\<rparr>) = inflight s" by (simp add: inflight_def)
    with inflight_admit[of "scrapePage opts p sl (s\<lparr>pending := rest\<rparr>)" "s\<lparr>pending := rest\<rparr>" p]
      True pe Admit
    show ?thesis by simp
  next
    case False
    with Admit assms(1) show ?thesis
      by (auto split: main_frame.split list.split)
  qed
next
  case (ItemSettled p r)
  show ?thesis
  proof (cases "workers s p")
    case (AwaitItem l d i)
    with inflight_worker[of s p "suspend_items p l (scrapePageItems_fetched opts l d i r s)"]
      assms(1) ItemSettled
    show ?thesis by simp
  qed (use ItemSettled assms(1) in simp_all)
next
  case (StoreOpenSettled r)
  with assms(1) inflight_same[of "createSqliteDatabase_settled r s" s] show ?thesis by simp
next
  case (WriteSettled ok)
  show ?thesis
  proof (cases "writes s")
    case Nil
    with WriteSettled assms(1) show ?thesis by simp
  next
    case (Cons pe ws)
    obtain p e where pe: "pe = (p, e)" by force
    let ?s1 = "onItemScraped opts ok e (s\<lparr>writes := ws\<rparr>)"
    have s1: "inflight ?s1 = inflight s" "concurrency ?s1 = concurrency s"
      by (simp_all add: inflight_def)
    show ?thesis
    proof (cases "workers ?s1 p")
      case (AwaitWrite l d i e')
      with inflight_worker[of ?s1 p "suspend_items p l (scrapePageItems_written opts l d i e' ?s1)"]
        assms(1) WriteSettled Cons pe s1
      show ?thesis by (simp add: Let_def)
    qed (use WriteSettled assms(1) Cons pe s1 in \<open>simp_all add: Let_def\<close>)
  qed
next
  case AllSettled
  with assms(1) inflight_same[of "scrapeStart_finish opts s" s] show ?thesis by simp
qed

lemma inflight_run: "length (inflight (run opts es)) \<le> concurrency (run opts es)"
proof -
  have "length (inflight (run opts es)) \<le> concurrency (run opts es)
        \<and> sched_ok (run opts es) \<and> unstarted (run opts es)"
  proof (induction rule: run_induct)
    case 1
    show ?case using run_invariants[of opts "[]"]
      by (simp add: run_def run_from_def)
         (simp add: inflight_def scrapeStart_def initial_def fetchPage_call_def)
  next
    case (2 s e)
    then show ?case by (simp add: inflight_step sched_ok_step unstarted_step)
  qed
  then show ?thesis by simp
qed

lemma concurrency_step:
  "main s \<noteq> AwaitFirstPage \<Longrightarrow> concurrency (step opts e s) = concurrency s"
  by (cases e) (auto simp add: Let_def split: main_frame.split worker.split list.split)

lemma main_started_step:
  "main s \<noteq> AwaitFirstPage \<Longrightarrow> main (step opts e s) \<noteq> AwaitFirstPage"
  by (cases rule: main_step_cases[of opts e s]) auto

lemma concurrency_run_from:
  "main s \<noteq> AwaitFirstPage \<Longrightarrow> concurrency (run_from opts s es) = concurrency s"
proof -
  assume m: "main s \<noteq> AwaitFirstPage"
  have "main (run_from opts s es) \<noteq> AwaitFirstPage \<and> concurrency (run_from opts s es) = concurrency s"
  proof (induction rule: run_from_induct)
    case 1
    from m show ?case by simp
  next
    case (2 s' e)
    then show ?case by (simp add: concurrency_step main_started_step)
  qed
  then show ?thesis by simp
qed

lemma concurrency_first:
  "concurrency (step opts (ListSettled 1 r) scrapeStart) \<le> reported_concurrency (first_page r)"
  "main (step opts (ListSettled 1 r) scrapeStart) \<noteq> AwaitFirstPage"
  unfolding first_event
  by (simp_all add: scrapeStart_resume_def Let_def scrapeStart_def initial_def fetchPage_call_def)

text \<open>
  C4. In every state of a run the number of page tasks in flight is at most the
  concurrency that \<^verbatim>\<open>scrapeStart\<close> computed from page 1, which is the
  \<^verbatim>\<open>requestsConcurrency\<close> page 1 reported, and 1 when that is absent or zero (or page 1
  is); and \<^verbatim>\<open>scrapeStart\<close> has only returned the counters when no submitted page waits
  and every page task is completed.
\<close>

theorem page_tasks_bounded:
  "length (inflight (run opts (ListSettled 1 r # es))) \<le> reported_concurrency (first_page r)
   \<and> reported_concurrency None = 1
   \<and> reported_concurrency (Some (l\<lparr>user_requestsConcurrency := None\<rparr>)) = 1
   \<and> reported_concurrency (Some (l\<lparr>user_requestsConcurrency := Some 0\<rparr>)) = 1
   \<and> reported_concurrency (Some (l\<lparr>user_requestsConcurrency := Some (Suc n)\<rparr>)) = Suc n
   \<and> (\<forall>st. main (run opts (ListSettled 1 r # es)) = Returned (Some st)
         \<longrightarrow> pending (run opts (ListSettled 1 r # es)) = []
             \<and> all_finished (run opts (ListSettled 1 r # es))
             \<and> inflight (run opts (ListSettled 1 r # es)) = [])"
proof -
  let ?s = "run opts (ListSettled 1 r # es)"
  have "length (inflight ?s) \<le> concurrency ?s" by (rule inflight_run)
  also have "concurrency ?s = concurrency (step (constructor opts) (ListSettled 1 r) scrapeStart)"
    unfolding run_Cons by (rule concurrency_run_from) (rule concurrency_first)
  also have "\<dots> \<le> reported_concurrency (first_page r)" by (rule concurrency_first)
  finally have bound: "length (inflight ?s) \<le> reported_concurrency (first_page r)" .
  have ret: "pending ?s = [] \<and> all_finished ?s \<and> inflight ?s = []"
    if "main ?s = Returned (Some st)" for st
  proof -
    from that run_invariants[of opts "ListSettled 1 r # es"]
    have a: "pending ?s = []" "all_finished ?s" "sched_ok ?s"
      by (auto simp add: returned_ok_def)
    from a(3) a(1) a(2) have "\<not> active (workers ?s p)" for p by (rule quiet_after_return)
    then have "inflight ?s = []" by (simp add: inflight_def)
    with a show ?thesis by simp
  qed
  from bound ret show ?thesis by (simp add: reported_concurrency_def)
qed

theorem page_tasks_bounded_witness:
  "inflight (run (options_of Json True None)
               (ListSettled 1 (Resolved (Some (page_of 3 2 [item_a]))) # take 3 bounded_events))
     = [1, 2]
   \<and> map fst (pending (run (options_of Json True None)
               (ListSettled 1 (Resolved (Some (page_of 3 2 [item_a]))) # take 3 bounded_events)))
     = [3]
   \<and> reported_concurrency (first_page (Resolved (Some (page_of 3 2 [item_a])))) = 2
   \<and> main (run (options_of Json True None)
               (ListSettled 1 (Resolved (Some (page_of 3 2 [item_a]))) # bounded_events))
     = Returned (Some \<lparr>pages = 3, pagesSuccess = 1, items = 1, itemsSuccess = 0, requests = 4\<rparr>)
   \<and> inflight (run (options_of Json True None)
               (ListSettled 1 (Resolved (Some (page_of 3 2 [item_a]))) # bounded_events))
     = []"
proof -
  have m: "main (run (options_of Json True None)
               (ListSettled 1 (Resolved (Some (page_of 3 2 [item_a]))) # bounded_events))
     = Returned (Some \<lparr>pages = 3, pagesSuccess = 1, items = 1, itemsSuccess = 0, requests = 4\<rparr>)"
    by code_simp
  have i: "inflight (run (options_of Json True None)
               (ListSettled 1 (Resolved (Some (page_of 3 2 [item_a]))) # take 3 bounded_events))
     = [1, 2]"
    "map fst (pending (run (options_of Json True None)
               (ListSettled 1 (Resolved (Some (page_of 3 2 [item_a]))) # take 3 bounded_events)))
     = [3]"
    "reported_concurrency (first_page (Resolved (Some (page_of 3 2 [item_a])))) = 2"
    by code_simp+
  from page_tasks_bounded
    [of "options_of Json True None" "Resolved (Some (page_of 3 2 [item_a]))" bounded_events]
    m i
  show ?thesis by simp
qed

section \<open>The terminal flag and the fetches\<close>












section \<open>The pages scheduled and fetched\<close>

lemma list_fetches_append [simp]:
  "list_fetches (xs @ ys) = list_fetches xs @ list_fetches ys"
  by (induction xs rule: list_fetches.induct) simp_all

lemma suspend_items_fetches [simp]:
  "list_fetches (issued (snd (suspend_items p l ks))) = list_fetches (issued (snd ks))"
  by (simp add: suspend_items_unfold split: items_k.split)

lemma scrapePage_listed_fetches [simp]:
  "list_fetches (issued (snd (scrapePage_listed opts p lo s))) = list_fetches (issued s)"
  by (simp add: scrapePage_listed_def split: option.split)

lemma scrapePage_fetched_fetches [simp]:
  "list_fetches (issued (snd (scrapePage_fetched opts p r s))) = list_fetches (issued s)"
  by (simp add: scrapePage_fetched_def split_beta)

lemma fetchPage_resume_done: "is_done s \<Longrightarrow> is_done (snd (fetchPage_resume p r s))"
  by (cases r) (simp_all add: fetchPage_resume_def split: option.split)

lemma scrapePageItems_fetched_done:
  "is_done s \<Longrightarrow> is_done (snd (scrapePageItems_fetched opts l d i r s))"
  by (cases r) (simp_all add: scrapePageItems_fetched_def)

lemma scrapePage_fetched_done: "is_done s \<Longrightarrow> is_done (snd (scrapePage_fetched opts p r s))"
  by (simp add: scrapePage_fetched_def split_beta fetchPage_resume_done)

lemma scrapeStart_resume_done: "is_done s \<Longrightarrow> is_done (scrapeStart_resume opts fp s)"
  by (simp add: scrapeStart_resume_def Let_def)

lemma done_step: "is_done s \<Longrightarrow> is_done (step opts e s)"
proof (cases e)
  case (StoreOpenSettled r)
  assume "is_done s"
  with StoreOpenSettled show ?thesis by (cases r) simp_all
qed (auto simp add: split_beta Let_def fetchPage_resume_done scrapePage_fetched_done
      scrapePageItems_fetched_done scrapeStart_resume_done
      split: main_frame.split worker.split list.split)

lemma fetch_ok_same:
  assumes "fetch_ok s" and "list_fetches (issued s') = list_fetches (issued s)"
    and "next_page s' = next_page s" and "is_done s \<Longrightarrow> is_done s'"
  shows "fetch_ok s'"
  using assms by (auto simp add: fetch_ok_def simp del: upt_Suc)

lemma next_page_same:
  "totalPages s' = totalPages s \<Longrightarrow> pending s' = pending s \<Longrightarrow> next_page s' = next_page s"
  by (simp add: next_page_def)

lemma fetch_ok_worker:
  assumes "fetch_ok s" and "list_fetches (issued (snd ws)) = list_fetches (issued s)"
    and "totalPages (snd ws) = totalPages s" and "pending (snd ws) = pending s"
    and "is_done s \<Longrightarrow> is_done (snd ws)"
  shows "fetch_ok (set_worker p ws)"
  using assms(1)
  by (rule fetch_ok_same) (simp_all add: assms next_page_def)

lemma fetch_ok_resume:
  assumes "fetch_ok s" and "totalPages s = 0" and "pending s = []"
  shows "fetch_ok (scrapeStart_resume opts fp (snd (fetchPage_resume p r s)))"
  using assms(1)
proof (rule fetch_ok_same)
  show "next_page (scrapeStart_resume opts fp (snd (fetchPage_resume p r s))) = next_page s"
    using assms(2,3) by (simp add: next_page_def scrapeStart_resume_def Let_def)
qed (simp_all add: scrapeStart_resume_def Let_def fetchPage_resume_done)

lemma fetch_ok_admit:
  assumes "fetch_ok s" and "sched_ok s" and "pending_ok s" and "pending s = (p, sl) # rest"
  shows "fetch_ok (set_worker p (scrapePage opts p sl (s\<lparr>pending := rest\<rparr>)))"
proof -
  let ?s0 = "s\<lparr>pending := rest\<rparr>"
  let ?s' = "set_worker p (scrapePage opts p sl ?s0)"
  from assms(2,4) have eq: "[next_page s..<Suc (totalPages s)] = p # map fst rest"
    by (simp add: sched_ok_def del: upt_Suc)
  then have k: "next_page s = p" by (auto simp add: upt_eq_Cons_conv simp del: upt_Suc)
  from assms(2,4) have len: "Suc (length rest) \<le> totalPages s" by (simp add: sched_ok_def)
  with k assms(4) have p1: "1 \<le> p" by (simp add: next_page_def)
  have n: "next_page ?s' = Suc p"
    using k len assms(4) by (simp add: next_page_def)
  from assms(3,4) have arg: "(p = 1) = (sl \<noteq> None)" by (simp add: pending_ok_def)
  show ?thesis
  proof (cases "is_done s")
    case True
    then have "issued ?s' = issued s" "is_done ?s'" by (simp_all add: scrapePage_def)
    with assms(1) k p1 show ?thesis unfolding fetch_ok_def n by (auto simp del: upt_Suc)
  next
    case False
    show ?thesis
    proof (cases sl)
      case None
      with arg p1 have p2: "2 \<le> p" by auto
      from None False have i: "issued ?s' = issued s @ [IssueList False p]"
        by (simp add: scrapePage_def fetchPage_call_def)
      from assms(1) False k p2 have len_eq: "length (list_fetches (issued s)) = p - 1"
        by (auto simp add: fetch_ok_def simp del: upt_Suc)
      from assms(1) have "list_fetches (issued s) = [1..<Suc (length (list_fetches (issued s)))]"
        by (simp add: fetch_ok_def del: upt_Suc)
      with len_eq p2 have "list_fetches (issued s) = [1..<p]" by (simp del: upt_Suc)
      with p2 have f: "list_fetches (issued ?s') = [1..<Suc p]"
        unfolding i by simp
      then have "length (list_fetches (issued ?s')) = p" by (simp del: upt_Suc)
      with f show ?thesis unfolding fetch_ok_def n using p2 by (simp del: upt_Suc)
    next
      case (Some l)
      with arg have p: "p = 1" by simp
      from Some have i: "list_fetches (issued ?s') = list_fetches (issued s)"
        by (simp add: scrapePage_def)
      from assms(1) False k p i show ?thesis unfolding fetch_ok_def n
        by (auto simp del: upt_Suc)
    qed
  qed
qed

lemma pending_ok_step: "pending_ok s \<Longrightarrow> unstarted s \<Longrightarrow> pending_ok (step opts e s)"
proof (cases e)
  case (ListSettled p r)
  assume a: "pending_ok s" "unstarted s"
  have "pending_ok (scrapeStart_resume opts fp s')" if "pending s' = []" for fp s'
    using that
    by (auto simp add: pending_ok_def scrapeStart_resume_def Let_def list_all_iff simp del: upt_Suc)
  with a ListSettled show ?thesis
    by (auto simp add: split_beta unstarted_def pending_ok_def split: main_frame.split worker.split)
qed (auto simp add: pending_ok_def Let_def split: main_frame.split worker.split list.split)

lemma fetch_ok_step:
  assumes "fetch_ok s" and "sched_ok s" and "pending_ok s" and "unstarted s"
  shows "fetch_ok (step opts e s)"
proof (cases e)
  case (ListSettled p r)
  show ?thesis
  proof (cases "main s")
    case AwaitFirstPage
    with ListSettled assms show ?thesis
      by (auto simp add: split_beta unstarted_def intro!: fetch_ok_resume)
  next
    case AwaitPages
    with ListSettled assms(1) show ?thesis
      by (auto intro!: fetch_ok_worker scrapePage_fetched_done split: worker.split)
  next
    case (Returned v)
    with ListSettled assms(1) show ?thesis by simp
  qed
next
  case Admit
  with assms show ?thesis
    by (auto intro!: fetch_ok_admit split: main_frame.split list.split)
next
  case (ItemSettled p r)
  with assms(1) show ?thesis
    by (auto intro!: fetch_ok_worker scrapePageItems_fetched_done split: worker.split)
next
  case (StoreOpenSettled r)
  have "fetch_ok (createSqliteDatabase_settled r s)"
    using assms(1) by (rule fetch_ok_same) (cases r; simp add: next_page_def)+
  with StoreOpenSettled assms(1) show ?thesis by simp
next
  case (WriteSettled ok)
  have a: "fetch_ok (onItemScraped opts ok e (s\<lparr>writes := ws\<rparr>))" for e ws
    using assms(1) by (rule fetch_ok_same) (simp_all add: next_page_def)
  show ?thesis
  proof (cases "writes s")
    case Nil
    with WriteSettled assms(1) show ?thesis by simp
  next
    case (Cons pe ws)
    obtain p e where pe: "pe = (p, e)" by force
    from WriteSettled Cons pe assms(1) a[of e ws] show ?thesis
      by (auto simp add: Let_def intro!: fetch_ok_worker split: worker.split)
  qed
next
  case AllSettled
  have "fetch_ok (scrapeStart_finish opts s)"
    using assms(1) by (rule fetch_ok_same) (simp_all add: next_page_def)
  with AllSettled assms(1) show ?thesis by simp
qed

lemma fetch_ok_run: "fetch_ok (run opts es)"
proof -
  have "fetch_ok (run opts es) \<and> pending_ok (run opts es)
        \<and> sched_ok (run opts es) \<and> unstarted (run opts es)"
  proof (induction rule: run_induct)
    case 1
    show ?case using run_invariants[of opts "[]"]
      by (simp add: run_def run_from_def)
         (simp add: fetch_ok_def pending_ok_def next_page_def scrapeStart_def initial_def
           fetchPage_call_def)
  next
    case (2 s e)
    then show ?case
      by (simp add: fetch_ok_step pending_ok_step sched_ok_step unstarted_step)
  qed
  then show ?thesis by simp
qed

lemma totalPages_step:
  "main s \<noteq> AwaitFirstPage \<Longrightarrow> totalPages (step opts e s) = totalPages s"
  by (cases e) (auto simp add: Let_def split: main_frame.split worker.split list.split)

lemma totalPages_run_from:
  assumes "main s \<noteq> AwaitFirstPage"
  shows "totalPages (run_from opts s es) = totalPages s"
proof -
  have "main (run_from opts s es) \<noteq> AwaitFirstPage \<and> totalPages (run_from opts s es) = totalPages s"
  proof (induction rule: run_from_induct)
    case 1
    from assms show ?case by simp
  next
    case (2 s' e)
    then show ?case by (simp add: totalPages_step main_started_step)
  qed
  then show ?thesis by simp
qed

lemma first_scheduled:
  "map fst (pending (step opts (ListSettled 1 r) scrapeStart))
     = [1..<Suc (capped_totalPages opts (first_page r))]"
  "totalPages (step opts (ListSettled 1 r) scrapeStart) = capped_totalPages opts (first_page r)"
  unfolding first_event
  by (auto simp add: scrapeStart_resume_def Let_def scrapeStart_def initial_def fetchPage_call_def
      comp_def capped_totalPages_def simp del: upt_Suc split: option.split)

lemma totalPages_run:
  "totalPages (run opts (ListSettled 1 r # es)) = capped_totalPages (constructor opts) (first_page r)"
proof -
  have "totalPages (run opts (ListSettled 1 r # es))
          = totalPages (step (constructor opts) (ListSettled 1 r) scrapeStart)"
    unfolding run_Cons by (rule totalPages_run_from) (rule concurrency_first)
  then show ?thesis by (simp only: first_scheduled(2))
qed

lemma capped_constructor [simp]:
  "capped_totalPages (constructor opts) fp = capped_totalPages opts fp"
  by (simp add: capped_totalPages_def constructor_def split: option.split)

text \<open>
  C6. One page task is submitted for each page from 1 to the page count of page 1, capped
  by \<^verbatim>\<open>maxPages\<close> when that option is set (not zero): the count is the minimum of the two.
  \<^verbatim>\<open>fetchList\<close> is called for pages 1, 2, ... in order, for no page twice and for no
  page beyond that count; and when \<^verbatim>\<open>scrapeStart\<close> has returned the counters with \<^verbatim>\<open>done\<close>
  clear, it has been called for exactly the pages up to the count.
\<close>

theorem pages_scheduled:
  "map fst (pending (run opts [ListSettled 1 r]))
     = [1..<Suc (capped_totalPages opts (first_page r))]
   \<and> totalPages (run opts (ListSettled 1 r # es)) = capped_totalPages opts (first_page r)
   \<and> capped_totalPages (opts\<lparr>maxPages := None\<rparr>) None = 0
   \<and> capped_totalPages (opts\<lparr>maxPages := None\<rparr>) (Some l) = or_nat (pagination_totalPages l) 0
   \<and> capped_totalPages (opts\<lparr>maxPages := Some 0\<rparr>) fp
       = capped_totalPages (opts\<lparr>maxPages := None\<rparr>) fp
   \<and> capped_totalPages (opts\<lparr>maxPages := Some (Suc m)\<rparr>) fp
       = min (capped_totalPages (opts\<lparr>maxPages := None\<rparr>) fp) (Suc m)
   \<and> (\<exists>n. list_fetches (issued (run opts (ListSettled 1 r # es))) = [1..<Suc n]
            \<and> 1 \<le> n \<and> n \<le> max 1 (capped_totalPages opts (first_page r)))
   \<and> (\<forall>st. main (run opts (ListSettled 1 r # es)) = Returned (Some st)
             \<and> is_done (run opts (ListSettled 1 r # es)) = False
         \<longrightarrow> list_fetches (issued (run opts (ListSettled 1 r # es)))
               = [1..<Suc (capped_totalPages opts (first_page r))])"
proof -
  let ?s = "run opts (ListSettled 1 r # es)"
  let ?cap = "capped_totalPages opts (first_page r)"
  have sched: "map fst (pending (run opts [ListSettled 1 r])) = [1..<Suc ?cap]"
    using first_scheduled(1)[of "constructor opts" r]
    by (simp add: run_def run_from_def del: upt_Suc step.simps)
  have total: "totalPages ?s = ?cap"
    using totalPages_run[of opts r es] by simp
  have inv: "fetch_ok ?s" "sched_ok ?s" "returned_ok ?s"
    using fetch_ok_run run_invariants by blast+
  from total have k: "next_page ?s \<le> Suc ?cap"
    by (simp add: next_page_def)
  from inv(1) k have fetched:
    "\<exists>n. list_fetches (issued ?s) = [1..<Suc n] \<and> 1 \<le> n \<and> n \<le> max 1 ?cap"
    unfolding fetch_ok_def by (intro exI[of _ "length (list_fetches (issued ?s))"]) auto
  have all: "list_fetches (issued ?s) = [1..<Suc ?cap]"
    if "main ?s = Returned (Some st)" and "is_done ?s = False" for st
  proof -
    from that(1) inv(3) have "pending ?s = []" by (simp add: returned_ok_def)
    with total have n: "next_page ?s = Suc ?cap" by (simp add: next_page_def)
    have "\<not> nothing_to_scrape opts r"
      using that(1) nothing_to_scrape_halts(2)[of opts r es] by (auto simp add: halted_def)
    then have "1 \<le> ?cap" by (simp add: nothing_to_scrape_def)
    with inv(1) n that(2) have "length (list_fetches (issued ?s)) = ?cap"
      by (auto simp add: fetch_ok_def simp del: upt_Suc)
    with inv(1) show ?thesis by (simp add: fetch_ok_def del: upt_Suc)
  qed
  have caps: "capped_totalPages (opts\<lparr>maxPages := None\<rparr>) None = 0"
    "capped_totalPages (opts\<lparr>maxPages := None\<rparr>) (Some l) = or_nat (pagination_totalPages l) 0"
    "capped_totalPages (opts\<lparr>maxPages := Some 0\<rparr>) fp
       = capped_totalPages (opts\<lparr>maxPages := None\<rparr>) fp"
    "capped_totalPages (opts\<lparr>maxPages := Some (Suc m)\<rparr>) fp
       = min (capped_totalPages (opts\<lparr>maxPages := None\<rparr>) fp) (Suc m)"
    by (auto simp add: capped_totalPages_def Let_def)
  from sched total fetched all caps show ?thesis by blast
qed

theorem pages_scheduled_witness:
  "capped_totalPages (options_of Json False (Some 5))
       (first_page (Resolved (Some (page_of 100 1 [])))) = 5
   \<and> map fst (pending (run (options_of Json False (Some 5))
                        [ListSettled 1 (Resolved (Some (page_of 100 1 [])))]))
       = [1, 2, 3, 4, 5]
   \<and> main (run (options_of Json False (Some 5))
              (ListSettled 1 (Resolved (Some (page_of 100 1 []))) # five_pages_events))
       = Returned (Some \<lparr>pages = 5, pagesSuccess = 1, items = 0, itemsSuccess = 0, requests = 5\<rparr>)
   \<and> is_done (run (options_of Json False (Some 5))
              (ListSettled 1 (Resolved (Some (page_of 100 1 []))) # five_pages_events)) = False
   \<and> list_fetches (issued (run (options_of Json False (Some 5))
              (ListSettled 1 (Resolved (Some (page_of 100 1 []))) # five_pages_events)))
       = [1, 2, 3, 4, 5]"
proof -
  have c: "capped_totalPages (options_of Json False (Some 5))
       (first_page (Resolved (Some (page_of 100 1 [])))) = 5"
    by code_simp
  have m: "main (run (options_of Json False (Some 5))
              (ListSettled 1 (Resolved (Some (page_of 100 1 []))) # five_pages_events))
       = Returned (Some \<lparr>pages = 5, pagesSuccess = 1, items = 0, itemsSuccess = 0, requests = 5\<rparr>)"
    by code_simp
  have d: "is_done (run (options_of Json False (Some 5))
              (ListSettled 1 (Resolved (Some (page_of 100 1 []))) # five_pages_events)) = False"
    by code_simp
  have u: "[Suc 0..<5] @ [5] = [Suc 0, 2, 3, 4, 5::nat]" by code_simp
  from pages_scheduled
    [of "options_of Json False (Some 5)" "Resolved (Some (page_of 100 1 []))" five_pages_events]
    c m d u
  show ?thesis by simp
qed

section \<open>A write that fails\<close>













lemma suspend_items_store [simp]:
  "rows (snd (suspend_items p l ks)) = rows (snd ks)"
  "inMemoryItems (snd (suspend_items p l ks)) = inMemoryItems (snd ks)"
  by (simp_all add: suspend_items_unfold scrapePage_end_def split: items_k.split)



section \<open>Every run ends\<close>

















lemma suspend_items_writes:
  "fst (suspend_items p l ks) = AwaitWrite l' d i e \<Longrightarrow>
     writes (snd (suspend_items p l ks)) = writes (snd ks) @ [(p, e)]"
  "\<exists>ws. writes (snd (suspend_items p l ks)) = writes (snd ks) @ ws"
  by (auto simp add: suspend_items_unfold split: items_k.splits)

lemma write_ok_worker:
  assumes "write_ok s" and "workers (snd ws) = workers s" and "main (snd ws) = main s"
    and "concurrency (snd ws) = concurrency s"
    and "\<exists>xs. writes (snd ws) = writes s @ xs"
    and "\<And>l d i e. fst ws = AwaitWrite l d i e \<Longrightarrow> p \<in> fst ` set (writes (snd ws))"
  shows "write_ok (set_worker p ws)"
proof -
  from assms(5) obtain xs where xs: "writes (snd ws) = writes s @ xs" by blast
  show ?thesis
    unfolding write_ok_def
  proof (intro conjI allI impI)
    fix q l d i e
    assume a: "workers (set_worker p ws) q = AwaitWrite l d i e"
    show "q \<in> fst ` set (writes (set_worker p ws))"
    proof (cases "q = p")
      case True
      with a have "fst ws = AwaitWrite l d i e" by simp
      from assms(6)[OF this] True show ?thesis by simp
    next
      case False
      with a assms(2) have "workers s q = AwaitWrite l d i e" by simp
      with assms(1) have "q \<in> fst ` set (writes s)" unfolding write_ok_def by blast
      then show ?thesis by (auto simp add: xs)
    qed
  next
    assume "main (set_worker p ws) = AwaitPages"
    with assms(1,3,4) show "1 \<le> concurrency (set_worker p ws)"
      by (simp add: write_ok_def)
  qed
qed






lemma write_ok_written:
  assumes "write_ok s"
  shows "write_ok (set_worker p (suspend_items p l (scrapePageItems_written opts l d i e s)))"
proof (rule write_ok_worker[OF assms])
  show "\<exists>xs. writes (snd (suspend_items p l (scrapePageItems_written opts l d i e s)))
              = writes s @ xs"
    using suspend_items_writes(2)[of p l "scrapePageItems_written opts l d i e s"] by simp
next
  fix l' d' i' e'
  assume "fst (suspend_items p l (scrapePageItems_written opts l d i e s)) = AwaitWrite l' d' i' e'"
  from suspend_items_writes(1)[OF this]
  show "p \<in> fst ` set (writes (snd (suspend_items p l (scrapePageItems_written opts l d i e s))))"
    by simp
qed simp_all









end
